theory Spec2Isabelle
  imports Main "HOL-Library.AList"
begin

section \<open>Python values shared by the tools and the graphs\<close>

text \<open>
  Exceptions are values. Only subclasses of Python's \<open>Exception\<close> are modelled;
  \<open>str_exn\<close> is \<open>str(e)\<close>.
\<close>

datatype exn =
    FileNotFoundError string
  | NameError string
  | KeyError string
  | IndexError string
  | AttributeError string
  | TypeError string
  | ValueError string
  | ExternalError string

fun str_exn :: "exn \<Rightarrow> string" where
  "str_exn (FileNotFoundError m) = m"
| "str_exn (NameError m) = m"
| "str_exn (KeyError m) = m"
| "str_exn (IndexError m) = m"
| "str_exn (AttributeError m) = m"
| "str_exn (TypeError m) = m"
| "str_exn (ValueError m) = m"
| "str_exn (ExternalError m) = m"

text \<open>\<open>sep.join(xs)\<close> on a list of strings.\<close>

fun str_join :: "string \<Rightarrow> string list \<Rightarrow> string" where
  "str_join sep [] = []"
| "str_join sep [x] = x"
| "str_join sep (x # y # ys) = x @ sep @ str_join sep (y # ys)"

text \<open>
  \<open>xs[start:end]\<close> with step 1: \<open>None\<close> is the open end, a negative index counts
  from the end of the list, and both indices are clamped to \<open>0 .. len(xs)\<close>.
\<close>

definition py_slice :: "'a list \<Rightarrow> int option \<Rightarrow> int option \<Rightarrow> 'a list" where
  "py_slice xs start end =
     (let n = int (length xs);
          clamp = (\<lambda>i. if i < 0 then max 0 (i + n) else min i n);
          lo = (case start of None \<Rightarrow> 0 | Some i \<Rightarrow> clamp i);
          hi = (case end of None \<Rightarrow> n | Some j \<Rightarrow> clamp j)
      in take (nat (hi - lo)) (drop (nat lo) xs))"

text \<open>\<open>str(n)\<close> for an integer, as an f-string prints it.\<close>

fun str_nat :: "nat \<Rightarrow> string" where
  "str_nat n =
     (if n < 10 then [''0123456789'' ! n]
      else str_nat (n div 10) @ [''0123456789'' ! (n mod 10)])"

declare str_nat.simps [simp del]

definition str_int :: "int \<Rightarrow> string" where
  "str_int i = (if i < 0 then CHR ''-'' # str_nat (nat (- i)) else str_nat (nat i))"

section \<open>The document tools of tools.py\<close>

text \<open>
  The working directory is a map from file names to the characters stored in the
  file. The tools open files in text mode with the default \<open>newline=None\<close>: reading
  translates \<open>"\r\n"\<close> and a lone \<open>"\r"\<close> to \<open>"\n"\<close> (universal newlines),
  writing translates every \<open>"\n"\<close> to \<open>os.linesep\<close>, which is a parameter of the
  tools that write (\<open>"\n"\<close> on POSIX). \<open>file.readlines()\<close> cuts the translated text
  after every newline and keeps the newline at the end of each line; a last line without
  a newline is kept as it is.
\<close>

type_synonym directory = "string \<rightharpoonup> string"

fun universal_newlines :: "string \<Rightarrow> string" where
  "universal_newlines [] = []"
| "universal_newlines [c] = (if c = CHR 0x0D then [CHR ''\<newline>''] else [c])"
| "universal_newlines (c # d # cs) =
     (if c = CHR 0x0D \<and> d = CHR ''\<newline>'' then CHR ''\<newline>'' # universal_newlines cs
      else if c = CHR 0x0D then CHR ''\<newline>'' # universal_newlines (d # cs)
      else c # universal_newlines (d # cs))"

definition write_text :: "string \<Rightarrow> string \<Rightarrow> string" where
  "write_text linesep s = concat (map (\<lambda>c. if c = CHR ''\<newline>'' then linesep else [c]) s)"

fun readlines_from :: "string \<Rightarrow> string \<Rightarrow> string list" where
  "readlines_from cur [] = (if cur = [] then [] else [cur])"
| "readlines_from cur (c # cs) =
     (if c = CHR ''\<newline>'' then (cur @ [c]) # readlines_from [] cs
      else readlines_from (cur @ [c]) cs)"

definition readlines :: "string \<Rightarrow> string list" where
  "readlines text = readlines_from [] (universal_newlines text)"

text \<open>
  \<^verbatim>\<open>
  def read_document(file_name, start=None, end=None) -> str:
      with (WORKING_DIRECTORY / file_name).open("r") as file:
          lines = file.readlines()
      if start is not None:
          start = 0
      return "\n".join(lines[start:end])
  \<close>
\<close>

definition read_document ::
  "directory \<Rightarrow> string \<Rightarrow> int option \<Rightarrow> int option \<Rightarrow> exn + string" where
  "read_document wd file_name start end =
     (case wd file_name of
        None \<Rightarrow> Inl (FileNotFoundError file_name)
      | Some text \<Rightarrow>
          (let lines = readlines text;
               start' = (if start \<noteq> None then Some 0 else start)
           in Inr (str_join ''\<newline>'' (py_slice lines start' end))))"

text \<open>
  \<^verbatim>\<open>
  def write_document(content, file_name) -> str:
      with (WORKING_DIRECTORY / file_name).open("w") as file:
          file.write(content)
      return f"Document saved to {file_name}"
  \<close>
\<close>

definition write_document ::
  "string \<Rightarrow> directory \<Rightarrow> string \<Rightarrow> string \<Rightarrow> (exn + string) \<times> directory" where
  "write_document linesep wd content file_name =
     (Inr (''Document saved to '' @ file_name), wd(file_name \<mapsto> write_text linesep content))"

text \<open>
  \<^verbatim>\<open>
  def edit_document(file_name, inserts: Dict[int, str]) -> str:
      with (WORKING_DIRECTORY / file_name).open("r") as file:
          lines = file.readlines()
      sorted_inserts = sorted(inserts.items())
      for line_number, text in sorted_inserts:
          if 1 <= line_number <= len(lines) + 1:
              lines.insert(line_number - 1, text + "\n")
          else:
              return f"Error: Line number {line_number} is out of range."
      with (WORKING_DIRECTORY / file_name).open("w") as file:
          file.writelines(lines)
      return f"Document edited and saved to {file_name}"
  \<close>
  The dictionary \<open>inserts\<close> is the list of its items; its keys are distinct, so the
  order of \<open>sorted\<close> on the (key, value) pairs is the order of the keys. The loop
  returns either the line number it stopped at or the final list of lines.
\<close>

definition sorted_inserts :: "(int \<times> string) list \<Rightarrow> (int \<times> string) list" where
  "sorted_inserts inserts = sort_key fst inserts"

definition list_insert :: "nat \<Rightarrow> 'a \<Rightarrow> 'a list \<Rightarrow> 'a list" where
  "list_insert i x xs = take i xs @ x # drop i xs"

fun insert_loop :: "(int \<times> string) list \<Rightarrow> string list \<Rightarrow> int + string list" where
  "insert_loop [] lines = Inr lines"
| "insert_loop ((line_number, text) # rest) lines =
     (if 1 \<le> line_number \<and> line_number \<le> int (length lines) + 1
      then insert_loop rest (list_insert (nat (line_number - 1)) (text @ ''\<newline>'') lines)
      else Inl line_number)"

definition edit_document ::
  "string \<Rightarrow> directory \<Rightarrow> string \<Rightarrow> (int \<times> string) list
     \<Rightarrow> (exn + string) \<times> directory" where
  "edit_document linesep wd file_name inserts =
     (case wd file_name of
        None \<Rightarrow> (Inl (FileNotFoundError file_name), wd)
      | Some text \<Rightarrow>
          (case insert_loop (sorted_inserts inserts) (readlines text) of
             Inl line_number \<Rightarrow>
               (Inr (''Error: Line number '' @ str_int line_number @ '' is out of range.''), wd)
           | Inr lines \<Rightarrow>
               (Inr (''Document edited and saved to '' @ file_name),
                wd(file_name \<mapsto> write_text linesep (concat lines)))))"

text \<open>
  The \<open>i\<close>-th insert (counting from 0, in ascending key order) is processed after
  \<open>i\<close> lines have been inserted into a file of \<open>n\<close> lines; it is out of range
  when its line number is not in \<open>1 .. n + i + 1\<close>.
\<close>

definition out_of_range_at :: "(int \<times> string) list \<Rightarrow> nat \<Rightarrow> nat \<Rightarrow> bool" where
  "out_of_range_at si n i = (\<not> (1 \<le> fst (si ! i) \<and> fst (si ! i) \<le> int (n + i) + 1))"

definition out_of_range_message :: "int \<Rightarrow> string" where
  "out_of_range_message k = ''Error: Line number '' @ str_int k @ '' is out of range.''"

text \<open>The list indices at which the inserts put their texts: line number minus one.\<close>

definition insert_positions :: "(int \<times> string) list \<Rightarrow> nat set" where
  "insert_positions inserts = (\<lambda>p. nat (fst p - 1)) ` set inserts"

section \<open>Messages, dictionaries and state schemas (agents.py)\<close>

text \<open>
  A message carries its class (\<open>"human"\<close> for \<open>HumanMessage\<close>), its content and an
  optional author name. A Python value is a string, a message or a list of values; a
  dictionary is the list of its items in insertion order, read with \<open>map_of\<close> and
  written with \<open>AList.update\<close> (which replaces the value of a key that is present and
  appends a new key), as \<open>{**state, key: value}\<close> does.
\<close>

datatype message = BaseMessage (msg_type: string) (content: string) (name: "string option")

definition HumanMessage :: "string \<Rightarrow> message" where
  "HumanMessage c = BaseMessage ''human'' c None"

datatype val = Str string | Msg message | List "val list"

type_synonym pydict = "(string \<times> val) list"

text \<open>\<open>operator.add\<close>: concatenation of two lists or of two strings, \<open>TypeError\<close> otherwise.\<close>

fun operator_add :: "val \<Rightarrow> val \<Rightarrow> exn + val" where
  "operator_add (List xs) (List ys) = Inr (List (xs @ ys))"
| "operator_add (Str a) (Str b) = Inr (Str (a @ b))"
| "operator_add _ _ = Inl (TypeError ''unsupported operand type(s) for +'')"

text \<open>
  A state schema lists the annotation of each field: its type and, for an
  \<open>Annotated[..., operator.add]\<close> field, its reducer.
  \<^verbatim>\<open>
  class GenerationTeamState(TypedDict):
      messages: Annotated[List[BaseMessage], operator.add]
      team_members: List[str]
      next: str

  class DocWritingState(TypedDict):
      messages: Annotated[List[BaseMessage], operator.add]
      team_members: str
      next: str
      current_files: str

  class State(TypedDict):
      messages: Annotated[List[BaseMessage], operator.add]
      next: str
  \<close>
\<close>

datatype ftype = List_BaseMessage | List_str | Plain_str

datatype reducer = Operator_add

type_synonym schema = "(string \<times> ftype \<times> reducer option) list"

definition GenerationTeamState :: schema where
  "GenerationTeamState =
     [(''messages'', List_BaseMessage, Some Operator_add),
      (''team_members'', List_str, None),
      (''next'', Plain_str, None)]"

definition DocWritingState :: schema where
  "DocWritingState =
     [(''messages'', List_BaseMessage, Some Operator_add),
      (''team_members'', Plain_str, None),
      (''next'', Plain_str, None),
      (''current_files'', Plain_str, None)]"

definition State :: schema where
  "State =
     [(''messages'', List_BaseMessage, Some Operator_add),
      (''next'', Plain_str, None)]"

definition field_type :: "schema \<Rightarrow> string \<Rightarrow> ftype option" where
  "field_type S k = map_option fst (map_of S k)"

definition field_reducer :: "schema \<Rightarrow> string \<Rightarrow> reducer option" where
  "field_reducer S k = (case map_of S k of None \<Rightarrow> None | Some (_, r) \<Rightarrow> r)"

text \<open>Whether a value has the annotated type.\<close>

fun is_str :: "val \<Rightarrow> bool" where
  "is_str (Str _) = True"
| "is_str _ = False"

fun is_msg :: "val \<Rightarrow> bool" where
  "is_msg (Msg _) = True"
| "is_msg _ = False"

fun has_type :: "ftype \<Rightarrow> val \<Rightarrow> bool" where
  "has_type Plain_str v = is_str v"
| "has_type List_str (List xs) = list_all is_str xs"
| "has_type List_BaseMessage (List xs) = list_all is_msg xs"
| "has_type _ _ = False"

text \<open>
  Modelled from the spec: the merge of a partial update into the state, which the
  graph library performs and the repository only configures through the schemas
  above. "Reducer: per-field function merging an existing state value with an incoming
  partial update"; a field declared with \<open>operator.add\<close> has the reducer append, every
  other field has the reducer replace. A field that has no value yet takes the
  update's value.
\<close>

definition reduce_field :: "schema \<Rightarrow> string \<Rightarrow> val option \<Rightarrow> val \<Rightarrow> exn + val" where
  "reduce_field S k old new =
     (case field_reducer S k of
        None \<Rightarrow> Inr new
      | Some Operator_add \<Rightarrow> (case old of None \<Rightarrow> Inr new | Some v \<Rightarrow> operator_add v new))"

text \<open>
  Modelled from the spec: the merge loop of the graph library. "merge the returned
  partial update into state using each field's reducer": the fields of the update are
  reduced one after the other; an exception of a reducer ends the merge.
\<close>

fun merge :: "schema \<Rightarrow> pydict \<Rightarrow> pydict \<Rightarrow> exn + pydict" where
  "merge S st [] = Inr st"
| "merge S st ((k, v) # rest) =
     (case reduce_field S k (map_of st k) v of
        Inl e \<Rightarrow> Inl e
      | Inr v' \<Rightarrow> merge S (AList.update k v' st) rest)"

text \<open>
  Modelled from the spec: the replay of "the same ordered sequence of partial updates
  against the same initial state", one merge after the other.
\<close>

fun merge_all :: "schema \<Rightarrow> pydict \<Rightarrow> pydict list \<Rightarrow> exn + pydict" where
  "merge_all S st [] = Inr st"
| "merge_all S st (u # us) =
     (case merge S st u of Inl e \<Rightarrow> Inl e | Inr st' \<Rightarrow> merge_all S st' us)"

section \<open>The adapters between the top-level graph and the teams (agents.py)\<close>

text \<open>
  \<open>xs[-1]\<close> on a value, then \<open>.content\<close>:
  \<^verbatim>\<open>
  def get_last_message(state: State) -> str:
      return state["messages"][-1].content

  def join_graph(response: dict):
      return {"messages": [response["messages"][-1]]}
  \<close>
\<close>

definition getitem :: "pydict \<Rightarrow> string \<Rightarrow> exn + val" where
  "getitem d k = (case map_of d k of None \<Rightarrow> Inl (KeyError k) | Some v \<Rightarrow> Inr v)"

fun last_item :: "val \<Rightarrow> exn + val" where
  "last_item (List xs) =
     (if xs = [] then Inl (IndexError ''list index out of range'') else Inr (last xs))"
| "last_item (Str s) =
     (if s = [] then Inl (IndexError ''string index out of range'') else Inr (Str [last s]))"
| "last_item (Msg m) = Inl (TypeError ''object is not subscriptable'')"

fun content_attr :: "val \<Rightarrow> exn + string" where
  "content_attr (Msg m) = Inr (content m)"
| "content_attr _ = Inl (AttributeError ''content'')"

definition get_last_message :: "pydict \<Rightarrow> exn + string" where
  "get_last_message state =
     (case getitem state ''messages'' of
        Inl e \<Rightarrow> Inl e
      | Inr ms \<Rightarrow> (case last_item ms of Inl e \<Rightarrow> Inl e | Inr m \<Rightarrow> content_attr m))"

definition join_graph :: "pydict \<Rightarrow> exn + pydict" where
  "join_graph response =
     (case getitem response ''messages'' of
        Inl e \<Rightarrow> Inl e
      | Inr ms \<Rightarrow> (case last_item ms of
                     Inl e \<Rightarrow> Inl e
                   | Inr m \<Rightarrow> Inr [(''messages'', List [m])]))"

text \<open>
  The two definitions of \<open>enter_chain\<close>: the first is the one bound when
  \<open>research_chain\<close> is built, the second (with \<open>members\<close>) the one bound when
  \<open>authoring_chain\<close> is built.
  \<^verbatim>\<open>
  def enter_chain(message: str):
      results = {"messages": [HumanMessage(content=message)]}
      return results

  def enter_chain(message: str, members: List[str]):
      results = {"messages": [HumanMessage(content=message)],
                 "team_members": ", ".join(members)}
      return results
  \<close>
\<close>

definition enter_chain :: "string \<Rightarrow> pydict" where
  "enter_chain message = [(''messages'', List [Msg (HumanMessage message)])]"

definition enter_chain_members :: "string \<Rightarrow> string list \<Rightarrow> pydict" where
  "enter_chain_members message members =
     [(''messages'', List [Msg (HumanMessage message)]),
      (''team_members'', Str (str_join '', '' members))]"

text \<open>\<open>f | g\<close> on runnables: \<open>g\<close> runs on the result of \<open>f\<close>; an exception of either ends the chain.\<close>

definition pipe :: "('a \<Rightarrow> exn + 'b) \<Rightarrow> ('b \<Rightarrow> exn + 'c) \<Rightarrow> 'a \<Rightarrow> exn + 'c" where
  "pipe f g x = (case f x of Inl e \<Rightarrow> Inl e | Inr y \<Rightarrow> g y)"

text \<open>
  \<^verbatim>\<open>
  research_chain = enter_chain | chain
  authoring_chain = (functools.partial(enter_chain, members=authoring_graph.nodes)
                     | authoring_graph.compile())
  super_graph.add_node("ResearchTeam", get_last_message | research_chain | join_graph)
  super_graph.add_node("PaperWritingTeam", get_last_message | authoring_chain | join_graph)
  \<close>
  The compiled team graph is the parameter \<open>chain\<close>: it maps the team's initial state to
  its final state, or fails.
\<close>

definition research_chain :: "(pydict \<Rightarrow> exn + pydict) \<Rightarrow> string \<Rightarrow> exn + pydict" where
  "research_chain chain = pipe (\<lambda>message. Inr (enter_chain message)) chain"

definition authoring_chain ::
  "string list \<Rightarrow> (pydict \<Rightarrow> exn + pydict) \<Rightarrow> string \<Rightarrow> exn + pydict" where
  "authoring_chain members chain = pipe (\<lambda>message. Inr (enter_chain_members message members)) chain"

definition ResearchTeam :: "(pydict \<Rightarrow> exn + pydict) \<Rightarrow> pydict \<Rightarrow> exn + pydict" where
  "ResearchTeam chain = pipe (pipe get_last_message (research_chain chain)) join_graph"

definition PaperWritingTeam ::
  "string list \<Rightarrow> (pydict \<Rightarrow> exn + pydict) \<Rightarrow> pydict \<Rightarrow> exn + pydict" where
  "PaperWritingTeam members chain =
     pipe (pipe get_last_message (authoring_chain members chain)) join_graph"

section \<open>Building the graphs (agents.py)\<close>

text \<open>
  A graph under construction: the state schema, the registered nodes with their
  executables (a state to a partial update, or an exception), the unconditional edges
  and the conditional edges (source, routing function, mapping from routing key to
  destination). \<open>START\<close> and \<open>END\<close> are the graph library's sentinels; the program
  tests the streamed chunks for the key \<open>"__end__"\<close>.
\<close>

type_synonym executable = "pydict \<Rightarrow> exn + pydict"

type_synonym router = "pydict \<Rightarrow> exn + val"

record graph =
  state_schema :: schema
  nodes :: "(string \<times> executable) list"
  edges :: "(string \<times> string) list"
  branches :: "(string \<times> router \<times> (string \<times> string) list) list"

definition START :: string where
  "START = ''__start__''"

definition END :: string where
  "END = ''__end__''"

definition StateGraph :: "schema \<Rightarrow> graph" where
  "StateGraph S = \<lparr>state_schema = S, nodes = [], edges = [], branches = []\<rparr>"

definition add_node :: "string \<Rightarrow> executable \<Rightarrow> graph \<Rightarrow> graph" where
  "add_node n f g = g\<lparr>nodes := nodes g @ [(n, f)]\<rparr>"

definition add_edge :: "string \<Rightarrow> string \<Rightarrow> graph \<Rightarrow> graph" where
  "add_edge a b g = g\<lparr>edges := edges g @ [(a, b)]\<rparr>"

definition add_conditional_edges ::
  "string \<Rightarrow> router \<Rightarrow> (string \<times> string) list \<Rightarrow> graph \<Rightarrow> graph" where
  "add_conditional_edges src r mapping g = g\<lparr>branches := branches g @ [(src, r, mapping)]\<rparr>"

text \<open>The routing function of all three graphs, \<open>lambda x: x["next"]\<close>.\<close>

definition next_router :: router where
  "next_router x = getitem x ''next''"

text \<open>
  The calls of the program in their order; the node executables (agents driven by a
  language model) are parameters.
  \<^verbatim>\<open>
  research_graph = StateGraph(GenerationTeamState)
  research_graph.add_node("WebScraper", research_node)
  research_graph.add_node("Search", search_node)
  research_graph.add_node("ReferencesScraper", references_node)
  research_graph.add_node("Translator", translate_node)
  research_graph.add_node("supervisor", supervisor_agent)
  research_graph.add_edge("WebScraper", "supervisor")
  research_graph.add_edge("Search", "supervisor")
  research_graph.add_edge("ReferencesScraper", "supervisor")
  research_graph.add_edge("Translator", "supervisor")
  research_graph.add_conditional_edges("supervisor", lambda x: x["next"],
      {"WebScraper": "WebScraper", "Search": "Search",
       "ReferencesScraper": "ReferencesScraper", "Translator": "Translator",
       "FINISH": END})
  research_graph.add_edge(START, "supervisor")
  \<close>
\<close>

definition build :: "(graph \<Rightarrow> graph) list \<Rightarrow> graph \<Rightarrow> graph" where
  "build calls g = fold (\<lambda>call. call) calls g"

definition research_graph ::
  "executable \<Rightarrow> executable \<Rightarrow> executable \<Rightarrow> executable \<Rightarrow> executable \<Rightarrow> graph" where
  "research_graph research_node search_node references_node translate_node supervisor_agent =
     build
       [add_node ''WebScraper'' research_node,
        add_node ''Search'' search_node,
        add_node ''ReferencesScraper'' references_node,
        add_node ''Translator'' translate_node,
        add_node ''supervisor'' supervisor_agent,
        add_edge ''WebScraper'' ''supervisor'',
        add_edge ''Search'' ''supervisor'',
        add_edge ''ReferencesScraper'' ''supervisor'',
        add_edge ''Translator'' ''supervisor'',
        add_conditional_edges ''supervisor'' next_router
          [(''WebScraper'', ''WebScraper''),
           (''Search'', ''Search''),
           (''ReferencesScraper'', ''ReferencesScraper''),
           (''Translator'', ''Translator''),
           (''FINISH'', END)],
        add_edge START ''supervisor'']
       (StateGraph GenerationTeamState)"

text \<open>
  \<^verbatim>\<open>
  authoring_graph = StateGraph(DocWritingState)
  authoring_graph.add_node("DocWriter", doc_writing_node)
  authoring_graph.add_node("NoteTaker", note_taking_node)
  authoring_graph.add_node("supervisor", doc_writing_supervisor)
  authoring_graph.add_edge("DocWriter", "supervisor")
  authoring_graph.add_edge("NoteTaker", "supervisor")
  authoring_graph.add_conditional_edges("supervisor", lambda x: x["next"],
      {"DocWriter": "DocWriter", "NoteTaker": "NoteTaker", "FINISH": END})
  authoring_graph.add_edge(START, "supervisor")
  \<close>
\<close>

definition authoring_graph :: "executable \<Rightarrow> executable \<Rightarrow> executable \<Rightarrow> graph" where
  "authoring_graph doc_writing_node note_taking_node doc_writing_supervisor =
     build
       [add_node ''DocWriter'' doc_writing_node,
        add_node ''NoteTaker'' note_taking_node,
        add_node ''supervisor'' doc_writing_supervisor,
        add_edge ''DocWriter'' ''supervisor'',
        add_edge ''NoteTaker'' ''supervisor'',
        add_conditional_edges ''supervisor'' next_router
          [(''DocWriter'', ''DocWriter''),
           (''NoteTaker'', ''NoteTaker''),
           (''FINISH'', END)],
        add_edge START ''supervisor'']
       (StateGraph DocWritingState)"

text \<open>
  \<^verbatim>\<open>
  super_graph = StateGraph(State)
  super_graph.add_node("ResearchTeam", get_last_message | research_chain | join_graph)
  super_graph.add_node("PaperWritingTeam", get_last_message | authoring_chain | join_graph)
  super_graph.add_node("supervisor", supervisor_node)
  super_graph.add_edge("ResearchTeam", "supervisor")
  super_graph.add_edge("PaperWritingTeam", "supervisor")
  super_graph.add_conditional_edges("supervisor", lambda x: x["next"],
      {"PaperWritingTeam": "PaperWritingTeam", "ResearchTeam": "ResearchTeam",
       "FINISH": END})
  super_graph.add_edge(START, "supervisor")
  \<close>
  The two team nodes are taken as executables here; \<open>ResearchTeam\<close> and
  \<open>PaperWritingTeam\<close> above are the ones the program registers.
\<close>

definition super_graph :: "executable \<Rightarrow> executable \<Rightarrow> executable \<Rightarrow> graph" where
  "super_graph research_team paper_writing_team supervisor_node =
     build
       [add_node ''ResearchTeam'' research_team,
        add_node ''PaperWritingTeam'' paper_writing_team,
        add_node ''supervisor'' supervisor_node,
        add_edge ''ResearchTeam'' ''supervisor'',
        add_edge ''PaperWritingTeam'' ''supervisor'',
        add_conditional_edges ''supervisor'' next_router
          [(''PaperWritingTeam'', ''PaperWritingTeam''),
           (''ResearchTeam'', ''ResearchTeam''),
           (''FINISH'', END)],
        add_edge START ''supervisor'']
       (StateGraph State)"

text \<open>The step limit of the top-level run, \<open>super_graph.stream(..., {"recursion_limit": 150})\<close>.\<close>

definition recursion_limit :: nat where
  "recursion_limit = 150"

text \<open>The workers of a graph are its nodes other than the supervisor.\<close>

definition node_names :: "graph \<Rightarrow> string list" where
  "node_names g = map fst (nodes g)"

definition workers :: "graph \<Rightarrow> string list" where
  "workers g = filter (\<lambda>n. n \<noteq> ''supervisor'') (node_names g)"

definition outgoing :: "graph \<Rightarrow> string \<Rightarrow> string list" where
  "outgoing g n = map snd (filter (\<lambda>e. fst e = n) (edges g))"

definition routed_from :: "graph \<Rightarrow> string \<Rightarrow> bool" where
  "routed_from g n = (n \<in> set (map fst (branches g)))"

section \<open>Compilation and execution of a graph\<close>

datatype fault = CompileError | RoutingError | RecursionLimitExceeded | NodeFailure exn

text \<open>
  A compiled graph is the graph with its entry node. A name is known when it is a
  registered node or \<open>END\<close>; the destinations of a graph are the targets of its
  unconditional edges and the values of its conditional-edge mappings; its entry points
  are the targets of the edges from \<open>START\<close>.
\<close>

record compiled =
  graph_of :: graph
  entry_node :: string

definition known :: "graph \<Rightarrow> string \<Rightarrow> bool" where
  "known g n = (n \<in> set (node_names g) \<or> n = END)"

definition destinations :: "graph \<Rightarrow> string list" where
  "destinations g =
     map snd (edges g) @ concat (map (\<lambda>(src, r, mapping). map snd mapping) (branches g))"

definition entry_points :: "graph \<Rightarrow> string list" where
  "entry_points g = outgoing g START"

text \<open>
  Modelled from the spec: \<open>compile\<close>, which the graph library provides and the
  repository only calls. "\<open>compile()\<close> enforces: node names unique; exactly one entry
  point; every edge target is a known node or the terminal sentinel. Produces an
  immutable executable graph. Fails with a structural CompileError on any violation
  (duplicate name, missing entry, dangling edge)".
\<close>

definition compile :: "graph \<Rightarrow> fault + compiled" where
  "compile g =
     (if \<not> distinct (node_names g) then Inl CompileError
      else (case entry_points g of
              [e] \<Rightarrow> (if list_all (known g) (destinations g)
                      then Inr \<lparr>graph_of = g, entry_node = e\<rparr>
                      else Inl CompileError)
            | _ \<Rightarrow> Inl CompileError))"

text \<open>
  Modelled from the spec: edge resolution, performed by the graph library. "resolve
  the next node via the outgoing edge (direct, or via the routing function evaluated
  against the already-merged state)"; "any router output absent from its mapping always
  raises RoutingError". A node with no outgoing edge resolves to no next hop, reported
  as \<open>RoutingError\<close> too.
\<close>

definition resolve :: "graph \<Rightarrow> string \<Rightarrow> pydict \<Rightarrow> fault + string" where
  "resolve g cur st =
     (case map_of (edges g) cur of
        Some dest \<Rightarrow> Inr dest
      | None \<Rightarrow>
          (case map_of (branches g) cur of
             None \<Rightarrow> Inl RoutingError
           | Some (r, mapping) \<Rightarrow>
               (case r st of
                  Inl e \<Rightarrow> Inl (NodeFailure e)
                | Inr (Str key) \<Rightarrow>
                    (case map_of mapping key of
                       None \<Rightarrow> Inl RoutingError
                     | Some dest \<Rightarrow> Inr dest)
                | Inr _ \<Rightarrow> Inl RoutingError)))"

text \<open>
  The result of one hop: the run stops with the final state, advances to the next node
  with the merged state and the incremented counter, or fails with a fault, the snapshot
  it emitted (if it came that far) and the step counter it reached.
\<close>

datatype hop_result =
    Stop pydict
  | Advance string pydict nat
  | Fail fault "pydict option" nat

text \<open>
  Modelled from the spec: one hop of the executor, performed by the graph library.
  "invoke the current node's executable against the accumulated state; merge the
  returned partial update into state using each field's reducer; emit the resulting
  snapshot; if the current node is the terminal sentinel, stop successfully; otherwise
  resolve the next node via the outgoing edge (direct, or via the routing function
  evaluated against the already-merged state) and advance; increment the step counter
  and, if it exceeds \<open>step_limit\<close>, fail with RecursionLimitExceeded". The terminal
  sentinel has no executable, so its hop emits the state as it is. An exception of the
  node or of a reducer ends the run before a snapshot is emitted.
\<close>

definition hop :: "compiled \<Rightarrow> nat \<Rightarrow> string \<Rightarrow> pydict \<Rightarrow> nat \<Rightarrow> hop_result" where
  "hop cg step_limit cur st counter =
     (if cur = END then Stop st
      else (case map_of (nodes (graph_of cg)) cur of
              None \<Rightarrow> Fail RoutingError None counter
            | Some f \<Rightarrow>
                (case f st of
                   Inl e \<Rightarrow> Fail (NodeFailure e) None counter
                 | Inr upd \<Rightarrow>
                     (case merge (state_schema (graph_of cg)) st upd of
                        Inl e \<Rightarrow> Fail (NodeFailure e) None counter
                      | Inr st' \<Rightarrow>
                          (case resolve (graph_of cg) cur st' of
                             Inl flt \<Rightarrow> Fail flt (Some st') counter
                           | Inr nxt \<Rightarrow>
                               (if counter + 1 > step_limit
                                then Fail RecursionLimitExceeded (Some st') (counter + 1)
                                else Advance nxt st' (counter + 1)))))))"

text \<open>
  Modelled from the spec: the executor, "drives a compiled graph hop-by-hop from
  entry to the terminal sentinel, merging updates and enforcing a step budget, emitting
  a streamed sequence of state snapshots". The result is the fault (if any), the
  snapshots with their active node, and the final value of the step counter. The
  counter's initial value is a parameter.
\<close>

function run ::
  "compiled \<Rightarrow> nat \<Rightarrow> string \<Rightarrow> pydict \<Rightarrow> nat \<Rightarrow> fault option \<times> (string \<times> pydict) list \<times> nat" where
  "run cg step_limit cur st counter =
     (case hop cg step_limit cur st counter of
        Stop st' \<Rightarrow> (None, [(cur, st')], counter)
      | Fail flt snapshot c' \<Rightarrow>
          (Some flt, (case snapshot of None \<Rightarrow> [] | Some st' \<Rightarrow> [(cur, st')]), c')
      | Advance nxt st' c' \<Rightarrow>
          (case run cg step_limit nxt st' c' of
             (flt, trace, n) \<Rightarrow> (flt, (cur, st') # trace, n)))"
  by pat_completeness auto
termination
proof (relation "measure (\<lambda>(cg, step_limit, cur, st, counter). step_limit + 1 - counter)")
  show "wf (measure (\<lambda>(cg, step_limit, cur, st, counter). step_limit + 1 - counter))"
    by simp
next
  fix cg step_limit cur st counter nxt st' c'
  assume "hop cg step_limit cur st counter = Advance nxt st' c'"
  then have "c' = counter + 1 \<and> c' \<le> step_limit"
    by (auto simp: hop_def split: if_splits option.splits sum.splits)
  then show "((cg, step_limit, nxt, st', c'), (cg, step_limit, cur, st, counter))
        \<in> measure (\<lambda>(cg, step_limit, cur, st, counter). step_limit + 1 - counter)"
    by auto
qed

declare run.simps [simp del]

text \<open>
  Modelled from the spec: \<open>execute(graph, initial_state, step_limit)\<close>, the run from
  the entry node of the compiled graph.
\<close>

definition execute ::
  "compiled \<Rightarrow> pydict \<Rightarrow> nat \<Rightarrow> nat \<Rightarrow> fault option \<times> (string \<times> pydict) list \<times> nat" where
  "execute cg initial_state step_limit counter =
     run cg step_limit (entry_node cg) initial_state counter"

section \<open>The pre-processing hook (agents.py)\<close>

text \<open>
  \<^verbatim>\<open>
  def prelude(state):
      written_files = []
      if not WORKING_DIRECTORY.exists():
          WORKING_DIRECTORY.mkdir()
      try:
          written_files = [
              f.relative_to(WORKING_DIRECTORY) for f in WORKING_DIRECTORY.rglob("*")
          ]
      except Exception:
          pass
      if not written_files:
          return {**state, "current_files": "No files written."}
      return {
          **state,
          "current_files": "\nBelow are files your team has written to the directory:\n"
          + "\n".join([f" - {f}" for f in written_files]),
      }
  \<close>
  What the hook sees of the file system: whether the working directory exists, the
  exception of \<open>mkdir\<close> if it raises one, and the outcome of listing the directory
  (the relative paths, as strings, or an exception).
\<close>

record directory_view =
  dir_exists :: bool
  mkdir_raises :: "exn option"
  rglob :: "exn + string list"

definition files_header :: string where
  "files_header = ''\<newline>Below are files your team has written to the directory:\<newline>''"

definition file_line :: "string \<Rightarrow> string" where
  "file_line f = '' - '' @ f"

definition prelude :: "directory_view \<Rightarrow> pydict \<Rightarrow> exn + pydict" where
  "prelude dv state =
     (case (if \<not> dir_exists dv then mkdir_raises dv else None) of
        Some e \<Rightarrow> Inl e
      | None \<Rightarrow>
          (let written_files = (case rglob dv of Inl e \<Rightarrow> [] | Inr fs \<Rightarrow> fs)
           in if written_files = []
              then Inr (AList.update ''current_files'' (Str ''No files written.'') state)
              else Inr (AList.update ''current_files''
                          (Str (files_header @ str_join ''\<newline>'' (map file_line written_files)))
                          state)))"

section \<open>The tools that call external services (tools.py)\<close>

text \<open>
  The outcome of every external call is a parameter: the search API, the web page
  loader, the DeepL client (everything inside its \<open>try\<close>: reading the key, creating
  the translator, translating), and for the browser tools
  \<^item> \<open>driver_setup\<close>: the exception, if any, of the statements that precede the
    \<open>try\<close> (\<open>ChromeDriverManager().install()\<close>, \<open>webdriver.Chrome(...)\<close>,
    \<open>driver.execute_script(...)\<close>, \<open>driver.execute_cdp_cmd(...)\<close>);
  \<^item> the three pages: the text of the awaited element, or the exception raised inside
    the \<open>try\<close> while loading the page, finding an element, typing or waiting;
  \<^item> \<open>driver_quit\<close>: the exception, if any, of \<open>driver.quit()\<close> in the \<open>finally\<close>
    clause.
\<close>

record document =
  title :: "string option"
  page_content :: string

record world =
  search_run :: "string \<Rightarrow> exn + string"
  loader_load :: "string list \<Rightarrow> exn + document list"
  deepl_translate_text :: "string \<Rightarrow> exn + string"
  driver_setup :: "exn option"
  driver_quit :: "exn option"
  google_translate_page :: "string \<Rightarrow> int \<Rightarrow> exn + string"
  quillbot_page :: "string \<Rightarrow> int \<Rightarrow> exn + string"
  gptzero_page :: "string \<Rightarrow> int \<Rightarrow> exn + string"

text \<open>
  \<^verbatim>\<open>
  def google_search(query: str) -> str:
      return GoogleSearchAPIWrapper().run(query)
  \<close>
\<close>

definition google_search :: "world \<Rightarrow> string \<Rightarrow> exn + string" where
  "google_search w query = search_run w query"

text \<open>
  \<^verbatim>\<open>
  def scrape_webpages(urls: Union[List[str], str]) -> str:
      if isinstance(urls, str):
          try:
              urls = json.loads(urls)
          except json.JSONDecodeError:
              urls = [urls]
      if not isinstance(urls, list):
          raise ValueError("URLs must be a list of strings or a JSON string ...")
      loader = WebBaseLoader(urls)
      docs = loader.load()
      return "\n\n".join(
          [f'<Document name="{doc.metadata.get("title", "")}">\n{doc.page_content}\n</Document>'
           for doc in docs])
  \<close>
  tools.py imports \<open>time\<close>, \<open>deepl\<close>, the names of auth.py (\<open>os\<close>, \<open>Path\<close>,
  \<open>TypedDict\<close>, \<open>TemporaryDirectory\<close>, \<open>WORKING_DIRECTORY\<close>, \<open>reference_links\<close>), and
  names of typing, langchain and selenium, but never \<open>json\<close>: for a string argument
  the lookup of \<open>json\<close> raises \<open>NameError\<close>, in the \<open>try\<close> body and again in the
  \<open>except\<close> clause. A list argument goes straight to the loader; an argument of the
  declared type is a string or a list, so it never reaches the \<open>raise ValueError\<close>.
\<close>

datatype urls_arg = Urls_str string | Urls_list "string list"

definition format_document :: "document \<Rightarrow> string" where
  "format_document doc =
     ''<Document name='' @ [CHR 0x22] @ (case title doc of None \<Rightarrow> [] | Some t \<Rightarrow> t)
       @ [CHR 0x22] @ ''>'' @ ''\<newline>'' @ page_content doc @ ''\<newline>'' @ ''</Document>''"

definition format_documents :: "document list \<Rightarrow> string" where
  "format_documents docs = str_join ''\<newline>\<newline>'' (map format_document docs)"

definition scrape_webpages :: "world \<Rightarrow> urls_arg \<Rightarrow> exn + string" where
  "scrape_webpages w urls =
     (case urls of
        Urls_str s \<Rightarrow> Inl (NameError ''name json is not defined'')
      | Urls_list us \<Rightarrow>
          (case loader_load w us of
             Inl e \<Rightarrow> Inl e
           | Inr docs \<Rightarrow> Inr (format_documents docs)))"

text \<open>
  \<^verbatim>\<open>
  def scrape_references(urls: List[str]) -> str:
      loader = WebBaseLoader(urls)
      docs = loader.load()
      return "\n\n".join([... same format ...])
  \<close>
\<close>

definition scrape_references :: "world \<Rightarrow> string list \<Rightarrow> exn + string" where
  "scrape_references w urls =
     (case loader_load w urls of
        Inl e \<Rightarrow> Inl e
      | Inr docs \<Rightarrow> Inr (format_documents docs))"

text \<open>
  \<^verbatim>\<open>
  def deepl_translate(text: str) -> str:
      try:
          translator = deepl.Translator(os.environ["DEEPL_API_KEY"])
          translation_result = translator.translate_text(text, target_lang="RU")
          return f"Text is AI-generated on {translation_result.text}"
      except Exception as e:
         return f"An error occurred during translation with deepl: {str(e)}"
  \<close>
\<close>

definition deepl_translate :: "world \<Rightarrow> string \<Rightarrow> exn + string" where
  "deepl_translate w text =
     (case deepl_translate_text w text of
        Inr translated \<Rightarrow> Inr (''Text is AI-generated on '' @ translated)
      | Inl e \<Rightarrow> Inr (''An error occurred during translation with deepl: '' @ str_exn e))"

text \<open>
  \<^verbatim>\<open>
  def google_translate(text: str, timeout: int = 10) -> str:
      source_lang = 'en'
      dest_lang = 'ru'
      chrome_options = Options()
      chrome_options.add_argument("--headless")
      driver = webdriver.Chrome(service=Service(ChromeDriverManager().install()), ...)
      driver.execute_script(...)
      driver.execute_cdp_cmd(...)
      try:
          url = "https://translate.google.com.my/?sl="+source_lang+"&tl="+dest_lang+"&text="+text+"&op=translate"
          driver.get(url)
          wait = WebDriverWait(driver, timeout)
          output_element = wait.until(EC.presence_of_element_located(...))
          return f"Translated text: {output_element.text}"
      except Exception as e:
         return f"An error occurred during translation with google: {str(e)}"
      finally:
          driver.quit()
  \<close>
  The driver is set up before the \<open>try\<close>, so an exception of the set-up is not
  caught; \<open>driver.quit()\<close> runs in the \<open>finally\<close> clause, and an exception it raises
  replaces the value being returned.
\<close>

definition google_translate_url :: "string \<Rightarrow> string" where
  "google_translate_url text =
     ''https://translate.google.com.my/?sl='' @ ''en'' @ ''&tl='' @ ''ru''
       @ ''&text='' @ text @ ''&op=translate''"

definition google_translate :: "world \<Rightarrow> string \<Rightarrow> int \<Rightarrow> exn + string" where
  "google_translate w text timeout =
     (case driver_setup w of
        Some e \<Rightarrow> Inl e
      | None \<Rightarrow>
          (let url = google_translate_url text;
               returned =
                 (case google_translate_page w url timeout of
                    Inr element_text \<Rightarrow> ''Translated text: '' @ element_text
                  | Inl e \<Rightarrow> ''An error occurred during translation with google: '' @ str_exn e)
           in (case driver_quit w of Some e \<Rightarrow> Inl e | None \<Rightarrow> Inr returned)))"

text \<open>
  \<open>quillbot_detect_ai_content\<close> has the same shape (driver set up before the \<open>try\<close>,
  \<open>driver.quit()\<close> in the \<open>finally\<close> clause); in \<open>gptzero_detect_ai_content\<close> the
  \<open>finally\<close> clause is commented out. Both return
  \<open>f"Text is AI-generated on {output_element.text}"\<close> or
  \<open>f"An error occurred during AI generation assessment: {str(e)}"\<close>.
\<close>

definition quillbot_detect_ai_content :: "world \<Rightarrow> string \<Rightarrow> int \<Rightarrow> exn + string" where
  "quillbot_detect_ai_content w text timeout =
     (case driver_setup w of
        Some e \<Rightarrow> Inl e
      | None \<Rightarrow>
          (let returned =
                 (case quillbot_page w text timeout of
                    Inr element_text \<Rightarrow> ''Text is AI-generated on '' @ element_text
                  | Inl e \<Rightarrow> ''An error occurred during AI generation assessment: '' @ str_exn e)
           in (case driver_quit w of Some e \<Rightarrow> Inl e | None \<Rightarrow> Inr returned)))"

definition gptzero_detect_ai_content :: "world \<Rightarrow> string \<Rightarrow> int \<Rightarrow> exn + string" where
  "gptzero_detect_ai_content w text timeout =
     (case driver_setup w of
        Some e \<Rightarrow> Inl e
      | None \<Rightarrow>
          (case gptzero_page w text timeout of
             Inr element_text \<Rightarrow> Inr (''Text is AI-generated on '' @ element_text)
           | Inl e \<Rightarrow> Inr (''An error occurred during AI generation assessment: '' @ str_exn e)))"

text \<open>A world in which every external call fails.\<close>

definition offline :: world where
  "offline =
     \<lparr>search_run = (\<lambda>q. Inl (ExternalError ''offline'')),
      loader_load = (\<lambda>us. Inl (ExternalError ''offline'')),
      deepl_translate_text = (\<lambda>t. Inl (ExternalError ''offline'')),
      driver_setup = Some (ExternalError ''offline''),
      driver_quit = None,
      google_translate_page = (\<lambda>u t. Inl (ExternalError ''offline'')),
      quillbot_page = (\<lambda>u t. Inl (ExternalError ''offline'')),
      gptzero_page = (\<lambda>u t. Inl (ExternalError ''offline''))\<rparr>"

text \<open>A world in which the browser is set up and quits but no page loads.\<close>

definition pages_down :: world where
  "pages_down = offline\<lparr>driver_setup := None\<rparr>"

section \<open>Derived notions used in the statements\<close>

text \<open>The \<open>messages\<close> field of the state a merge returns, if it returns one.\<close>

definition messages_of :: "exn + pydict \<Rightarrow> val option" where
  "messages_of r = (case r of Inl e \<Rightarrow> None | Inr st \<Rightarrow> map_of st ''messages'')"

text \<open>The files the hook lists: those of \<open>rglob\<close>, or none if listing raised.\<close>

definition listed_files :: "directory_view \<Rightarrow> string list" where
  "listed_files dv = (case rglob dv of Inl e \<Rightarrow> [] | Inr fs \<Rightarrow> fs)"

text \<open>
  A graph is a supervised star when every worker has exactly one outgoing edge, to
  the supervisor, and no conditional edge.
\<close>

definition star_topology :: "graph \<Rightarrow> bool" where
  "star_topology g =
     list_all (\<lambda>w. outgoing g w = [''supervisor''] \<and> \<not> routed_from g w) (workers g)"

text \<open>
  The top-level run of the program: the compiled \<open>super_graph\<close> streamed from the
  seed with the step limit 150.
  \<^verbatim>\<open>
  super_graph = super_graph.compile()
  for s in super_graph.stream({"messages": [HumanMessage(content=...)]},
                              {"recursion_limit": 150}):
  \<close>
\<close>

definition stream_super_graph ::
  "executable \<Rightarrow> executable \<Rightarrow> executable \<Rightarrow> pydict \<Rightarrow> nat
     \<Rightarrow> fault option \<times> (string \<times> pydict) list \<times> nat" where
  "stream_super_graph research_team paper_writing_team supervisor_node seed counter =
     (case compile (super_graph research_team paper_writing_team supervisor_node) of
        Inl flt \<Rightarrow> (Some flt, [], counter)
      | Inr cg \<Rightarrow> execute cg seed recursion_limit counter)"

text \<open>
  Example executables for concrete runs: a team that answers with one message, a
  supervisor that never finishes, a supervisor that routes to the research team, then to
  the writing team, then finishes, and a team graph that adds two messages to its seed.
\<close>

definition reply :: "string \<Rightarrow> executable" where
  "reply who st = Inr [(''messages'', List [Msg (BaseMessage ''human'' ''done'' (Some who))])]"

definition looping_supervisor :: executable where
  "looping_supervisor st = Inr [(''next'', Str ''ResearchTeam'')]"

definition scripted_supervisor :: executable where
  "scripted_supervisor st =
     (let n = (case map_of st ''messages'' of Some (List ms) \<Rightarrow> length ms | _ \<Rightarrow> 0)
      in Inr [(''next'', Str (if n = 1 then ''ResearchTeam''
                              else if n = 2 then ''PaperWritingTeam'' else ''FINISH''))])"

definition demo_graph :: "executable \<Rightarrow> graph" where
  "demo_graph supervisor_node =
     super_graph (reply ''ResearchTeam'') (reply ''PaperWritingTeam'') supervisor_node"

definition demo_seed :: pydict where
  "demo_seed = [(''messages'', List [Msg (HumanMessage ''x'')])]"

definition two_hop_team :: "pydict \<Rightarrow> exn + pydict" where
  "two_hop_team seed =
     merge_all GenerationTeamState seed
       [[(''messages'', List [Msg (BaseMessage ''human'' ''draft'' (Some ''Search''))])],
        [(''messages'', List [Msg (BaseMessage ''human'' ''result'' (Some ''Translator''))])]]"

section \<open>Properties of the document tools\<close>

lemma length_list_insert: "length (list_insert i x xs) = Suc (length xs)"
  by (simp add: list_insert_def)

lemma list_insert_nth_at: "i \<le> length xs \<Longrightarrow> list_insert i x xs ! i = x"
  by (simp add: list_insert_def nth_append)

lemma list_insert_nth_before: "j < i \<Longrightarrow> i \<le> length xs \<Longrightarrow> list_insert i x xs ! j = xs ! j"
  by (simp add: list_insert_def nth_append)

lemma insert_loop_ok:
  "(\<forall>i<length si. 1 \<le> fst (si ! i) \<and> fst (si ! i) \<le> int (length lines + i) + 1)
   \<Longrightarrow> \<exists>lines'. insert_loop si lines = Inr lines' \<and> length lines' = length lines + length si"
proof (induction si arbitrary: lines)
  case Nil
  then show ?case by simp
next
  case (Cons p si)
  obtain k t where p: "p = (k, t)" by (cases p)
  from Cons.prems have h0: "1 \<le> k \<and> k \<le> int (length lines) + 1"
    using p by fastforce
  let ?l = "list_insert (nat (k - 1)) (t @ ''\<newline>'') lines"
  have "\<forall>i<length si. 1 \<le> fst (si ! i) \<and> fst (si ! i) \<le> int (length ?l + i) + 1"
  proof (intro allI impI)
    fix i assume "i < length si"
    then have "Suc i < length (p # si)" by simp
    from Cons.prems[rule_format, OF this] show "1 \<le> fst (si ! i) \<and> fst (si ! i) \<le> int (length ?l + i) + 1"
      by (simp add: length_list_insert)
  qed
  from Cons.IH[OF this] obtain lines' where
    "insert_loop si ?l = Inr lines'" "length lines' = length ?l + length si" by blast
  then show ?case using p h0 by (simp add: length_list_insert)
qed

lemma insert_loop_bad:
  "i < length si \<Longrightarrow> \<not> (1 \<le> fst (si ! i) \<and> fst (si ! i) \<le> int (length lines + i) + 1)
   \<Longrightarrow> \<forall>j<i. 1 \<le> fst (si ! j) \<and> fst (si ! j) \<le> int (length lines + j) + 1
   \<Longrightarrow> insert_loop si lines = Inl (fst (si ! i))"
proof (induction si arbitrary: lines i)
  case Nil
  then show ?case by simp
next
  case (Cons p si)
  obtain k t where p: "p = (k, t)" by (cases p)
  show ?case
  proof (cases i)
    case 0
    then show ?thesis using Cons.prems p by auto
  next
    case (Suc i')
    from Cons.prems(3) Suc have h0: "1 \<le> k \<and> k \<le> int (length lines) + 1"
      using p by fastforce
    let ?l = "list_insert (nat (k - 1)) (t @ ''\<newline>'') lines"
    have a: "i' < length si" using Cons.prems(1) Suc by simp
    have b: "\<not> (1 \<le> fst (si ! i') \<and> fst (si ! i') \<le> int (length ?l + i') + 1)"
      using Cons.prems(2) Suc by (simp add: length_list_insert)
    have c: "\<forall>j<i'. 1 \<le> fst (si ! j) \<and> fst (si ! j) \<le> int (length ?l + j) + 1"
    proof (intro allI impI)
      fix j assume "j < i'"
      then have "Suc j < i" using Suc by simp
      from Cons.prems(3)[rule_format, OF this]
      show "1 \<le> fst (si ! j) \<and> fst (si ! j) \<le> int (length ?l + j) + 1"
        by (simp add: length_list_insert)
    qed
    from Cons.IH[OF a b c] show ?thesis using p h0 Suc by simp
  qed
qed

lemma insert_loop_keeps_below:
  "insert_loop si lines = Inr lines' \<Longrightarrow> \<forall>p\<in>set si. int j + 1 < fst p \<Longrightarrow> j < length lines
   \<Longrightarrow> lines' ! j = lines ! j"
proof (induction si arbitrary: lines)
  case Nil
  then show ?case by simp
next
  case (Cons p si)
  obtain k t where p: "p = (k, t)" by (cases p)
  let ?l = "list_insert (nat (k - 1)) (t @ ''\<newline>'') lines"
  from Cons.prems(1) p have ok: "1 \<le> k \<and> k \<le> int (length lines) + 1"
    by (auto split: if_splits)
  with Cons.prems(1) p have r: "insert_loop si ?l = Inr lines'" by simp
  have kj: "int j + 1 < k" using Cons.prems(2) p by simp
  have "lines' ! j = ?l ! j"
    using Cons.IH[OF r] Cons.prems(2,3) by (simp add: length_list_insert)
  also have "\<dots> = lines ! j"
    using kj ok by (intro list_insert_nth_before) auto
  finally show ?case .
qed

lemma insert_loop_places:
  "insert_loop si lines = Inr lines' \<Longrightarrow> sorted_wrt (<) (map fst si)
   \<Longrightarrow> \<forall>p\<in>set si. lines' ! nat (fst p - 1) = snd p @ ''\<newline>''"
proof (induction si arbitrary: lines)
  case Nil
  then show ?case by simp
next
  case (Cons p si)
  obtain k t where p: "p = (k, t)" by (cases p)
  let ?l = "list_insert (nat (k - 1)) (t @ ''\<newline>'') lines"
  from Cons.prems(1) p have ok: "1 \<le> k \<and> k \<le> int (length lines) + 1"
    by (auto split: if_splits)
  with Cons.prems(1) p have r: "insert_loop si ?l = Inr lines'" by simp
  have above: "\<forall>q\<in>set si. int (nat (k - 1)) + 1 < fst q"
    using Cons.prems(2) p ok by auto
  have "lines' ! nat (k - 1) = ?l ! nat (k - 1)"
  proof -
    have "nat (k - 1) < length ?l" using ok unfolding length_list_insert by linarith
    from insert_loop_keeps_below[OF r above this] show ?thesis .
  qed
  also have "\<dots> = t @ ''\<newline>''"
    using ok by (intro list_insert_nth_at) auto
  finally have here: "lines' ! nat (fst p - 1) = snd p @ ''\<newline>''" using p by simp
  have "\<forall>q\<in>set si. lines' ! nat (fst q - 1) = snd q @ ''\<newline>''"
    using Cons.IH[OF r] Cons.prems(2) by simp
  with here show ?case by simp
qed

lemma sorted_inserts_strict:
  "distinct (map fst inserts) \<Longrightarrow> sorted_wrt (<) (map fst (sorted_inserts inserts))"
proof -
  assume d: "distinct (map fst inserts)"
  have "distinct (map fst (sort_key fst inserts))"
    using d by (simp add: distinct_map)
  moreover have "sorted (map fst (sort_key fst inserts))" by (rule sorted_sort_key)
  ultimately show ?thesis by (simp add: sorted_inserts_def strict_sorted_iff)
qed

lemma length_sorted_inserts: "length (sorted_inserts inserts) = length inserts"
  by (simp add: sorted_inserts_def)

lemma set_sorted_inserts: "set (sorted_inserts inserts) = set inserts"
  by (simp add: sorted_inserts_def)

lemma nths_cong_below:
  assumes "\<And>i. i < length xs \<Longrightarrow> i \<in> A \<longleftrightarrow> i \<in> B"
  shows "nths xs A = nths xs B"
proof -
  have "filter (\<lambda>p. snd p \<in> A) (zip xs [0..<length xs])
          = filter (\<lambda>p. snd p \<in> B) (zip xs [0..<length xs])"
  proof (rule filter_cong[OF refl])
    fix p assume "p \<in> set (zip xs [0..<length xs])"
    then have "snd p < length xs" by (auto simp: in_set_zip)
    then show "(snd p \<in> A) = (snd p \<in> B)" by (rule assms)
  qed
  then show ?thesis by (simp add: nths_def)
qed

lemma list_insert_nths:
  assumes j: "j \<le> length xs" and Q: "\<forall>q\<in>Q. q < j"
  shows "nths (list_insert j x xs) {i. i \<notin> Q \<and> i \<noteq> j} = nths xs {i. i \<notin> Q}"
proof -
  let ?A = "{i. i \<notin> Q \<and> i \<noteq> j}"
  have lt: "length (take j xs) = j" using j by simp
  have 1: "nths (list_insert j x xs) ?A
             = nths (take j xs) ?A @ nths (x # drop j xs) {n. n + j \<in> ?A}"
    unfolding list_insert_def nths_append lt ..
  have z: "0 \<notin> {n. n + j \<in> ?A}" by simp
  have 2: "nths (x # drop j xs) {n. n + j \<in> ?A}
             = nths (drop j xs) {n. Suc n \<in> {n. n + j \<in> ?A}}"
    unfolding nths_Cons using z by simp
  have 3: "nths (drop j xs) {n. Suc n \<in> {n. n + j \<in> ?A}} = drop j xs"
    using Q by (intro nths_all) auto
  have 4: "nths (take j xs) ?A = nths (take j xs) {i. i \<notin> Q}"
    by (rule nths_cong_below) (simp add: lt)
  have "nths (take j xs @ drop j xs) {i. i \<notin> Q}
          = nths (take j xs) {i. i \<notin> Q} @ nths (drop j xs) {n. n + j \<in> {i. i \<notin> Q}}"
    unfolding nths_append lt ..
  then have 5: "nths xs {i. i \<notin> Q}
          = nths (take j xs) {i. i \<notin> Q} @ nths (drop j xs) {n. n + j \<in> {i. i \<notin> Q}}"
    by (simp only: append_take_drop_id)
  have 6: "nths (drop j xs) {n. n + j \<in> {i. i \<notin> Q}} = drop j xs"
    using Q by (intro nths_all) auto
  show ?thesis by (simp only: 1 2 3 4 5 6)
qed

lemma insert_loop_keeps_others:
  "insert_loop si lines = Inr lines' \<Longrightarrow> sorted_wrt (<) (map fst si)
   \<Longrightarrow> \<forall>q\<in>Q. \<forall>p\<in>set si. int q + 1 < fst p
   \<Longrightarrow> nths lines' {i. i \<notin> Q \<and> i \<notin> insert_positions si} = nths lines {i. i \<notin> Q}"
proof (induction si arbitrary: lines Q)
  case Nil
  then show ?case by (simp add: insert_positions_def)
next
  case (Cons p si)
  obtain k t where p: "p = (k, t)" by (cases p)
  let ?j = "nat (k - 1)"
  let ?l = "list_insert ?j (t @ ''\<newline>'') lines"
  from Cons.prems(1) p have ok: "1 \<le> k \<and> k \<le> int (length lines) + 1"
    by (auto split: if_splits)
  with Cons.prems(1) p have r: "insert_loop si ?l = Inr lines'" by simp
  have s: "sorted_wrt (<) (map fst si)" using Cons.prems(2) by simp
  have above: "\<forall>q\<in>insert ?j Q. \<forall>p\<in>set si. int q + 1 < fst p"
    using Cons.prems(2,3) p ok by auto
  have below: "\<forall>q\<in>Q. q < ?j" using Cons.prems(3) p by auto
  have j: "?j \<le> length lines" using ok by auto
  have sets: "{i. i \<notin> Q \<and> i \<notin> insert_positions (p # si)}
                = {i. i \<notin> insert ?j Q \<and> i \<notin> insert_positions si}"
    using p by (auto simp: insert_positions_def)
  have "nths lines' {i. i \<notin> insert ?j Q \<and> i \<notin> insert_positions si}
          = nths ?l {i. i \<notin> insert ?j Q}"
    using r s above by (rule Cons.IH)
  also have "{i. i \<notin> insert ?j Q} = {i. i \<notin> Q \<and> i \<noteq> ?j}" by auto
  also have "nths ?l {i. i \<notin> Q \<and> i \<noteq> ?j} = nths lines {i. i \<notin> Q}"
    using j below by (rule list_insert_nths)
  finally show ?case by (simp only: sets)
qed

lemma insert_loop_keeps_lines:
  assumes "insert_loop si lines = Inr lines'" and "sorted_wrt (<) (map fst si)"
  shows "nths lines' (- insert_positions si) = lines"
proof -
  have "nths lines' {i. i \<notin> {} \<and> i \<notin> insert_positions si} = nths lines {i. i \<notin> {}}"
    using assms by (rule insert_loop_keeps_others) simp
  moreover have "{i. i \<notin> {} \<and> i \<notin> insert_positions si} = - insert_positions si" by auto
  moreover have "nths lines {i. i \<notin> {}} = lines" by (rule nths_all) simp
  ultimately show ?thesis by (simp only:)
qed

lemma edit_document_error_case:
  assumes wd: "wd file_name = Some body"
    and i: "i < length inserts"
    and bad: "out_of_range_at (sorted_inserts inserts) (length (readlines body)) i"
    and first: "\<forall>j<i. \<not> out_of_range_at (sorted_inserts inserts) (length (readlines body)) j"
  shows "edit_document linesep wd file_name inserts =
           (Inr (out_of_range_message (fst (sorted_inserts inserts ! i))), wd)"
proof -
  have "insert_loop (sorted_inserts inserts) (readlines body) = Inl (fst (sorted_inserts inserts ! i))"
    using i bad first
    by (intro insert_loop_bad) (simp_all add: out_of_range_at_def length_sorted_inserts)
  then show ?thesis using wd by (simp add: edit_document_def out_of_range_message_def)
qed

lemma edit_document_success_case:
  assumes wd: "wd file_name = Some body"
    and d: "distinct (map fst inserts)"
    and ok: "\<forall>i<length inserts. \<not> out_of_range_at (sorted_inserts inserts) (length (readlines body)) i"
  shows "\<exists>lines'. edit_document linesep wd file_name inserts =
             (Inr (''Document edited and saved to '' @ file_name),
              wd(file_name \<mapsto> write_text linesep (concat lines')))
           \<and> length lines' = length (readlines body) + length inserts
           \<and> (\<forall>p\<in>set inserts. lines' ! nat (fst p - 1) = snd p @ ''\<newline>'')
           \<and> nths lines' (- insert_positions inserts) = readlines body"
proof -
  have "\<forall>i<length (sorted_inserts inserts). 1 \<le> fst (sorted_inserts inserts ! i)
          \<and> fst (sorted_inserts inserts ! i) \<le> int (length (readlines body) + i) + 1"
    using ok by (simp add: out_of_range_at_def length_sorted_inserts)
  from insert_loop_ok[OF this] obtain lines' where
    r: "insert_loop (sorted_inserts inserts) (readlines body) = Inr lines'"
    and l: "length lines' = length (readlines body) + length inserts"
    by (auto simp: length_sorted_inserts)
  have pl: "\<forall>p\<in>set inserts. lines' ! nat (fst p - 1) = snd p @ ''\<newline>''"
    using insert_loop_places[OF r sorted_inserts_strict[OF d]] by (simp add: set_sorted_inserts)
  have "nths lines' (- insert_positions (sorted_inserts inserts)) = readlines body"
    using r sorted_inserts_strict[OF d] by (rule insert_loop_keeps_lines)
  then have kp: "nths lines' (- insert_positions inserts) = readlines body"
    by (simp add: insert_positions_def set_sorted_inserts)
  from r l pl kp wd show ?thesis by (intro exI[of _ lines']) (simp add: edit_document_def)
qed

lemma first_out_of_range:
  assumes "i < m" and "P (i::nat)"
  shows "\<exists>k<m. P k \<and> (\<forall>j<k. \<not> P j)"
proof -
  let ?k = "LEAST k. P k"
  have 1: "P ?k" using assms(2) by (rule LeastI)
  have "?k \<le> i" using assms(2) by (rule Least_le)
  then have 2: "?k < m" using assms(1) by (rule le_less_trans)
  have 3: "\<not> P j" if "j < ?k" for j using that by (rule not_less_Least)
  show ?thesis
  proof (intro exI conjI allI impI)
    show "?k < m" by fact
    show "P ?k" by fact
    fix j assume "j < ?k" then show "\<not> P j" by (rule 3)
  qed
qed

text \<open>
  What \<open>edit_document\<close> does on an existing file, for a dictionary of inserts. It
  returns the out-of-range message exactly when some insert, processed in ascending key
  order, has a line number outside \<open>1 .. number of lines + 1\<close> at the moment it is
  processed; it then reports the first such line number and leaves the directory as it
  was. Otherwise it returns the success message naming the file and writes the
  concatenation of a list of lines that has one more item per insert, holds every text
  (with a newline appended) at the index of its line number, and holds the lines read
  from the file, in their order, at the other indices.
\<close>

lemma edit_document_on_lines:
  assumes wd: "wd file_name = Some body" and d: "distinct (map fst inserts)"
  shows "((\<exists>k. fst (edit_document linesep wd file_name inserts) = Inr (out_of_range_message k))
           \<longleftrightarrow> (\<exists>i<length inserts.
                  out_of_range_at (sorted_inserts inserts) (length (readlines body)) i))
       \<and> (\<forall>i<length inserts.
            out_of_range_at (sorted_inserts inserts) (length (readlines body)) i
            \<and> (\<forall>j<i. \<not> out_of_range_at (sorted_inserts inserts) (length (readlines body)) j)
            \<longrightarrow> edit_document linesep wd file_name inserts =
                  (Inr (out_of_range_message (fst (sorted_inserts inserts ! i))), wd))
       \<and> ((\<forall>i<length inserts.
              \<not> out_of_range_at (sorted_inserts inserts) (length (readlines body)) i)
            \<longrightarrow> (\<exists>lines'. edit_document linesep wd file_name inserts =
                    (Inr (''Document edited and saved to '' @ file_name),
                     wd(file_name \<mapsto> write_text linesep (concat lines')))
                  \<and> length lines' = length (readlines body) + length inserts
                  \<and> (\<forall>p\<in>set inserts. lines' ! nat (fst p - 1) = snd p @ ''\<newline>'')
                  \<and> nths lines' (- insert_positions inserts) = readlines body))"
  (is "(?err \<longleftrightarrow> ?bad) \<and> ?B \<and> ?C")
proof (intro conjI)
  show ?B
  proof (intro allI impI, elim conjE)
    fix i
    assume "i < length inserts"
      "out_of_range_at (sorted_inserts inserts) (length (readlines body)) i"
      "\<forall>j<i. \<not> out_of_range_at (sorted_inserts inserts) (length (readlines body)) j"
    with wd show "edit_document linesep wd file_name inserts =
                  (Inr (out_of_range_message (fst (sorted_inserts inserts ! i))), wd)"
      by (rule edit_document_error_case)
  qed
  show c: ?C
  proof (intro impI)
    assume "\<forall>i<length inserts.
              \<not> out_of_range_at (sorted_inserts inserts) (length (readlines body)) i"
    with wd d show "\<exists>lines'. edit_document linesep wd file_name inserts =
                    (Inr (''Document edited and saved to '' @ file_name),
                     wd(file_name \<mapsto> write_text linesep (concat lines')))
                  \<and> length lines' = length (readlines body) + length inserts
                  \<and> (\<forall>p\<in>set inserts. lines' ! nat (fst p - 1) = snd p @ ''\<newline>'')
                  \<and> nths lines' (- insert_positions inserts) = readlines body"
      by (rule edit_document_success_case)
  qed
  show "?err \<longleftrightarrow> ?bad"
  proof
    assume ?bad
    then obtain i where "i < length inserts"
      "out_of_range_at (sorted_inserts inserts) (length (readlines body)) i" by blast
    from first_out_of_range[of i "length inserts"
        "out_of_range_at (sorted_inserts inserts) (length (readlines body))", OF this]
    obtain k where "k < length inserts"
      "out_of_range_at (sorted_inserts inserts) (length (readlines body)) k"
      "\<forall>j<k. \<not> out_of_range_at (sorted_inserts inserts) (length (readlines body)) j" by blast
    with wd have "edit_document linesep wd file_name inserts =
                  (Inr (out_of_range_message (fst (sorted_inserts inserts ! k))), wd)"
      by (rule edit_document_error_case)
    then have "fst (edit_document linesep wd file_name inserts)
                 = Inr (out_of_range_message (fst (sorted_inserts inserts ! k)))" by simp
    then show ?err by (rule exI)
  next
    assume e: ?err
    show ?bad
    proof (rule ccontr)
      assume "\<not> ?bad"
      then have "\<forall>i<length inserts.
              \<not> out_of_range_at (sorted_inserts inserts) (length (readlines body)) i" by simp
      with c obtain lines' where "edit_document linesep wd file_name inserts =
                    (Inr (''Document edited and saved to '' @ file_name),
                     wd(file_name \<mapsto> write_text linesep (concat lines')))" by blast
      then have "fst (edit_document linesep wd file_name inserts)
                     = Inr (''Document edited and saved to '' @ file_name)" by simp
      with e obtain k where "''Document edited and saved to '' @ file_name = out_of_range_message k"
        by auto
      then show False by (simp add: out_of_range_message_def)
    qed
  qed
qed

text \<open>
  Claim C5 fails on a file whose last line has no newline. \<open>write_document\<close> stores
  the content \<open>"a\nb"\<close> as it is (with \<open>os.linesep = "\n"\<close>); on that file
  \<open>edit_document\<close> with \<open>{3: "z"}\<close> finds line number 3 in range and returns the
  success message, but the text is appended to the unterminated line 2: the file
  becomes \<open>"a\nbz\n"\<close>, which has two lines, \<open>"a"\<close> and \<open>"bz"\<close>, and no line 3.
\<close>

theorem edit_document_joins_last_line:
  "write_document ''\<newline>'' Map.empty ''a\<newline>b'' ''notes.txt''
     = (Inr ''Document saved to notes.txt'', [''notes.txt'' \<mapsto> ''a\<newline>b''])
   \<and> edit_document ''\<newline>'' [''notes.txt'' \<mapsto> ''a\<newline>b''] ''notes.txt'' [(3, ''z'')]
     = (Inr ''Document edited and saved to notes.txt'', [''notes.txt'' \<mapsto> ''a\<newline>bz\<newline>''])
   \<and> readlines ''a\<newline>b'' = [''a\<newline>'', ''b'']
   \<and> readlines ''a\<newline>bz\<newline>'' = [''a\<newline>'', ''bz\<newline>'']"
  by (simp add: write_document_def edit_document_def write_text_def readlines_def
      sorted_inserts_def list_insert_def)

lemma read_document_start_inert:
  "read_document wd file_name (Some s) e = read_document wd file_name (Some 0) e"
  by (simp add: read_document_def)

text \<open>
  Claim C4. With an explicit start line the tool resets the start to 0: on a file of
  three lines, \<open>read_document\<close> with start 1 and end 2 returns lines 0 and 1 joined
  by a newline, whereas the lines of the range [1, 2) are the single line \<open>b\<close>.
\<close>

theorem read_document_start_reset:
  "read_document [''doc.txt'' \<mapsto> ''a\<newline>b\<newline>c\<newline>''] ''doc.txt'' (Some 1) (Some 2)
     = Inr ''a\<newline>\<newline>b\<newline>''
   \<and> str_join ''\<newline>'' (py_slice (readlines ''a\<newline>b\<newline>c\<newline>'') (Some 1) (Some 2)) = ''b\<newline>''"
  by (simp add: read_document_def readlines_def py_slice_def)

section \<open>Properties of the state schemas and reducers\<close>

lemma map_of_update: "map_of (AList.update k v d) = (map_of d)(k \<mapsto> v)"
  by (rule AList.update_conv')

lemma merge_append_field:
  assumes "field_reducer S k = Some Operator_add" and "map_of st k = Some (List xs)"
  shows "merge S st [(k, List ys)] = Inr (AList.update k (List (xs @ ys)) st)"
  using assms by (simp add: reduce_field_def)

lemma merge_replace_field:
  assumes "field_reducer S k = None"
  shows "merge S st [(k, v)] = Inr (AList.update k v st)"
  using assms by (simp add: reduce_field_def)

lemma messages_reducers:
  "field_reducer GenerationTeamState ''messages'' = Some Operator_add"
  "field_reducer DocWritingState ''messages'' = Some Operator_add"
  "field_reducer State ''messages'' = Some Operator_add"
  by (simp_all add: field_reducer_def GenerationTeamState_def DocWritingState_def State_def)

lemma append_two_messages:
  assumes r: "field_reducer S ''messages'' = Some Operator_add"
  shows "merge_all S (AList.update ''messages'' (List []) st)
           [[(''messages'', List [a])], [(''messages'', List [b])]]
         = Inr (AList.update ''messages'' (List [a, b])
                  (AList.update ''messages'' (List [a])
                     (AList.update ''messages'' (List []) st)))"
proof -
  let ?s0 = "AList.update ''messages'' (List []) st"
  let ?s1 = "AList.update ''messages'' (List [a]) ?s0"
  have 0: "map_of ?s0 ''messages'' = Some (List [])" by (simp add: map_of_update)
  have 1: "map_of ?s1 ''messages'' = Some (List [a])" by (simp add: map_of_update)
  have m0: "merge S ?s0 [(''messages'', List [a])] = Inr ?s1"
    using merge_append_field[OF r 0, of "[a]"] by simp
  have m1: "merge S ?s1 [(''messages'', List [b])] = Inr (AList.update ''messages'' (List [a, b]) ?s1)"
    using merge_append_field[OF r 1, of "[b]"] by simp
  show ?thesis by (simp only: merge_all.simps m0 m1 sum.case)
qed

text \<open>
  Claim C7. In each of the three schemas the reducer of \<open>messages\<close> is
  \<open>operator.add\<close>, which on lists is concatenation. Merging the update that appends
  \<open>a\<close> and then the update that appends \<open>b\<close> into a state whose \<open>messages\<close> is
  the empty list gives \<open>messages = [a, b]\<close>, whatever the other fields and whatever
  \<open>a\<close> and \<open>b\<close> are; the merge is a function of the state and the updates only.
\<close>

theorem messages_reducer_append:
  "field_reducer GenerationTeamState ''messages'' = Some Operator_add
   \<and> field_reducer DocWritingState ''messages'' = Some Operator_add
   \<and> field_reducer State ''messages'' = Some Operator_add
   \<and> operator_add (List xs) (List ys) = Inr (List (xs @ ys))
   \<and> messages_of (merge_all GenerationTeamState (AList.update ''messages'' (List []) st)
        [[(''messages'', List [a])], [(''messages'', List [b])]]) = Some (List [a, b])
   \<and> messages_of (merge_all DocWritingState (AList.update ''messages'' (List []) st)
        [[(''messages'', List [a])], [(''messages'', List [b])]]) = Some (List [a, b])
   \<and> messages_of (merge_all State (AList.update ''messages'' (List []) st)
        [[(''messages'', List [a])], [(''messages'', List [b])]]) = Some (List [a, b])"
  by (simp only: messages_reducers append_two_messages[OF messages_reducers(1)]
      append_two_messages[OF messages_reducers(2)] append_two_messages[OF messages_reducers(3)])
     (simp add: messages_of_def map_of_update)

lemma team_members_reducers:
  "field_reducer GenerationTeamState ''team_members'' = None"
  "field_reducer DocWritingState ''team_members'' = None"
  by (simp_all add: field_reducer_def GenerationTeamState_def DocWritingState_def)

text \<open>
  Claim C10 fails as stated: \<open>DocWritingState\<close> declares \<open>team_members: str\<close>, and
  the entry function of the authoring team stores the member names joined into one
  string, which is not a list of strings.
\<close>

theorem team_members_not_a_sequence:
  "field_type DocWritingState ''team_members'' \<noteq> Some List_str
   \<and> map_of (enter_chain_members ''go'' [''DocWriter'', ''NoteTaker'', ''supervisor''])
        ''team_members'' = Some (Str ''DocWriter, NoteTaker, supervisor'')
   \<and> \<not> has_type List_str (Str ''DocWriter, NoteTaker, supervisor'')"
  by (simp add: field_type_def DocWritingState_def enter_chain_members_def)

text \<open>
  Claim C10, amended. \<open>team_members\<close> is declared \<open>List[str]\<close> in
  \<open>GenerationTeamState\<close> and \<open>str\<close> in \<open>DocWritingState\<close>, where the entry function
  of the authoring team stores the member names joined by \<open>", "\<close> as one string; the
  top-level \<open>State\<close> declares no such field. In both team schemas its reducer is
  replace: an update containing \<open>team_members\<close> overwrites the previous value and
  leaves \<open>messages\<close> as it was.
\<close>

theorem team_members_declarations:
  "field_type GenerationTeamState ''team_members'' = Some List_str
   \<and> field_type DocWritingState ''team_members'' = Some Plain_str
   \<and> field_type State ''team_members'' = None
   \<and> map_of (enter_chain_members message members) ''team_members''
        = Some (Str (str_join '', '' members))
   \<and> has_type Plain_str (Str (str_join '', '' members))
   \<and> merge GenerationTeamState st [(''team_members'', v)]
        = Inr (AList.update ''team_members'' v st)
   \<and> merge DocWritingState st [(''team_members'', v)]
        = Inr (AList.update ''team_members'' v st)
   \<and> map_of (AList.update ''team_members'' v st) ''team_members'' = Some v
   \<and> messages_of (Inr (AList.update ''team_members'' v st)) = map_of st ''messages''"
  by (simp only: merge_replace_field[OF team_members_reducers(1)]
      merge_replace_field[OF team_members_reducers(2)])
     (simp add: field_type_def GenerationTeamState_def DocWritingState_def State_def
      enter_chain_members_def messages_of_def map_of_update)

section \<open>Properties of the pre-processing hook\<close>

lemma prelude_returns:
  assumes "dir_exists dv \<or> mkdir_raises dv = None"
  shows "prelude dv state =
           Inr (AList.update ''current_files''
                  (Str (if listed_files dv = [] then ''No files written.''
                        else files_header @ str_join ''\<newline>'' (map file_line (listed_files dv))))
                  state)"
  using assms by (auto simp: prelude_def listed_files_def Let_def split: sum.splits)

text \<open>
  Claim C9. When the working directory exists or can be created, \<open>prelude\<close> returns
  the input state with every field other than \<open>current_files\<close> unchanged;
  \<open>current_files\<close> is \<open>"No files written."\<close> when the listing is empty (or could not
  be read), and otherwise the header followed by one \<open>" - <path>"\<close> line per listed
  path, the lines joined by newlines.
\<close>

theorem prelude_frame:
  assumes "dir_exists dv \<or> mkdir_raises dv = None"
  shows "\<exists>state'. prelude dv state = Inr state'
           \<and> (\<forall>k. k \<noteq> ''current_files'' \<longrightarrow> map_of state' k = map_of state k)
           \<and> (listed_files dv = [] \<longrightarrow>
                map_of state' ''current_files'' = Some (Str ''No files written.''))
           \<and> (listed_files dv \<noteq> [] \<longrightarrow>
                map_of state' ''current_files''
                  = Some (Str (files_header
                               @ str_join ''\<newline>'' (map file_line (listed_files dv)))))"
  by (simp add: prelude_returns[OF assms] map_of_update)

text \<open>The hook on a directory with two files.\<close>

theorem prelude_frame_witness:
  "prelude \<lparr>dir_exists = True, mkdir_raises = None, rglob = Inr [''outline.txt'', ''paper.txt'']\<rparr>
     [(''messages'', List []), (''current_files'', Str ''No files written.''), (''next'', Str ''DocWriter'')]
   = Inr [(''messages'', List []),
          (''current_files'',
           Str ''\<newline>Below are files your team has written to the directory:\<newline> - outline.txt\<newline> - paper.txt''),
          (''next'', Str ''DocWriter'')]"
proof -
  let ?dv = "\<lparr>dir_exists = True, mkdir_raises = None, rglob = Inr [''outline.txt'', ''paper.txt'']\<rparr>"
  let ?st = "[(''messages'', List []), (''current_files'', Str ''No files written.''), (''next'', Str ''DocWriter'')]"
  have h: "dir_exists ?dv \<or> mkdir_raises ?dv = None" by simp
  from prelude_frame[OF h, of ?st] obtain state' where "prelude ?dv ?st = Inr state'" by blast
  moreover have "prelude ?dv ?st = Inr [(''messages'', List []),
          (''current_files'',
           Str ''\<newline>Below are files your team has written to the directory:\<newline> - outline.txt\<newline> - paper.txt''),
          (''next'', Str ''DocWriter'')]"
    by (simp add: prelude_def files_header_def file_line_def)
  ultimately show ?thesis by simp
qed

section \<open>Properties of the team adapters\<close>

lemma get_last_message_content:
  assumes "map_of outer ''messages'' = Some (List ms)" and "ms \<noteq> []" and "last ms = Msg m"
  shows "get_last_message outer = Inr (content m)"
  using assms by (simp add: get_last_message_def getitem_def)

lemma join_graph_last:
  assumes "map_of inner ''messages'' = Some (List ims)" and "ims \<noteq> []"
  shows "join_graph inner = Inr [(''messages'', List [last ims])]"
  using assms by (simp add: join_graph_def getitem_def)

lemma ResearchTeam_unfold:
  assumes "get_last_message outer = Inr c"
  shows "ResearchTeam chain outer = pipe chain join_graph (enter_chain c)"
  using assms by (simp add: ResearchTeam_def research_chain_def pipe_def)

lemma PaperWritingTeam_unfold:
  assumes "get_last_message outer = Inr c"
  shows "PaperWritingTeam members chain outer
           = pipe chain join_graph (enter_chain_members c members)"
  using assms by (simp add: PaperWritingTeam_def authoring_chain_def pipe_def)

text \<open>
  Claim C6. When the outer state's last message is \<open>m\<close>, a team node runs the inner
  graph on a seed built from the content of \<open>m\<close> alone: one \<open>HumanMessage\<close> with
  that content (for the writing team, together with the constant list of member names).
  When the inner graph ends in a state with a non-empty \<open>messages\<close>, the node's update
  has the single key \<open>messages\<close> with exactly one message, the last one of the inner
  state.
\<close>

theorem team_node_boundary:
  assumes outer: "map_of outer ''messages'' = Some (List ms)" "ms \<noteq> []" "last ms = Msg m"
  shows "ResearchTeam chain outer
           = pipe chain join_graph [(''messages'', List [Msg (HumanMessage (content m))])]
       \<and> PaperWritingTeam members chain' outer
           = pipe chain' join_graph
               [(''messages'', List [Msg (HumanMessage (content m))]),
                (''team_members'', Str (str_join '', '' members))]
       \<and> (\<forall>inner ims.
             chain [(''messages'', List [Msg (HumanMessage (content m))])] = Inr inner
             \<and> map_of inner ''messages'' = Some (List ims) \<and> ims \<noteq> []
             \<longrightarrow> ResearchTeam chain outer = Inr [(''messages'', List [last ims])])
       \<and> (\<forall>inner ims.
             chain' [(''messages'', List [Msg (HumanMessage (content m))]),
                     (''team_members'', Str (str_join '', '' members))] = Inr inner
             \<and> map_of inner ''messages'' = Some (List ims) \<and> ims \<noteq> []
             \<longrightarrow> PaperWritingTeam members chain' outer = Inr [(''messages'', List [last ims])])"
proof -
  have c: "get_last_message outer = Inr (content m)"
    using outer by (rule get_last_message_content)
  show ?thesis
    unfolding ResearchTeam_unfold[OF c] PaperWritingTeam_unfold[OF c]
    by (auto simp: enter_chain_def enter_chain_members_def pipe_def join_graph_last)
qed

text \<open>An inner team that adds two messages: the outer graph receives only the last.\<close>

theorem team_node_boundary_witness:
  "ResearchTeam two_hop_team [(''messages'', List [Msg (HumanMessage ''go'')])]
     = Inr [(''messages'', List [Msg (BaseMessage ''human'' ''result'' (Some ''Translator''))])]
   \<and> two_hop_team [(''messages'', List [Msg (HumanMessage ''go'')])]
     = Inr [(''messages'', List [Msg (HumanMessage ''go''),
                                Msg (BaseMessage ''human'' ''draft'' (Some ''Search'')),
                                Msg (BaseMessage ''human'' ''result'' (Some ''Translator''))])]"
proof -
  let ?outer = "[(''messages'', List [Msg (HumanMessage ''go'')])]"
  let ?ims = "[Msg (HumanMessage ''go''),
               Msg (BaseMessage ''human'' ''draft'' (Some ''Search'')),
               Msg (BaseMessage ''human'' ''result'' (Some ''Translator''))]"
  have h1: "map_of ?outer ''messages'' = Some (List [Msg (HumanMessage ''go'')])" by simp
  have h2: "[Msg (HumanMessage ''go'')] \<noteq> []" by simp
  have h3: "last [Msg (HumanMessage ''go'')] = Msg (HumanMessage ''go'')" by simp
  have run: "two_hop_team ?outer = Inr [(''messages'', List ?ims)]"
    by (simp add: two_hop_team_def reduce_field_def field_reducer_def GenerationTeamState_def)
  have c: "content (HumanMessage ''go'') = ''go''" by (simp add: HumanMessage_def)
  note T = team_node_boundary[OF h1 h2 h3, of two_hop_team, unfolded c]
  from T have "\<forall>inner ims.
             two_hop_team ?outer = Inr inner
             \<and> map_of inner ''messages'' = Some (List ims) \<and> ims \<noteq> []
             \<longrightarrow> ResearchTeam two_hop_team ?outer = Inr [(''messages'', List [last ims])]"
    by (rule conjunct2[THEN conjunct2, THEN conjunct1])
  from this[rule_format, of "[(''messages'', List ?ims)]" ?ims] run
  have "ResearchTeam two_hop_team ?outer = Inr [(''messages'', List [last ?ims])]" by simp
  with run show ?thesis by simp
qed

section \<open>Properties of the tools that call external services\<close>

text \<open>
  Claim C3 fails as stated: when the page loader fails, \<open>scrape_webpages\<close> returns no
  string but lets the exception through, and so does \<open>google_translate\<close> when the
  set-up of the browser driver fails.
\<close>

theorem scrape_webpages_propagates_failure:
  "scrape_webpages offline (Urls_list [''https://example.org'']) = Inl (ExternalError ''offline'')
   \<and> google_translate offline ''hello'' 10 = Inl (ExternalError ''offline'')"
  by (simp add: scrape_webpages_def google_translate_def offline_def)

lemma deepl_translate_result:
  "deepl_translate_text w text = Inr translated
     \<Longrightarrow> deepl_translate w text = Inr (''Text is AI-generated on '' @ translated)"
  "deepl_translate_text w text = Inl e
     \<Longrightarrow> deepl_translate w text
           = Inr (''An error occurred during translation with deepl: '' @ str_exn e)"
  by (simp_all add: deepl_translate_def)

lemma google_translate_result:
  assumes "driver_setup w = None" and "driver_quit w = None"
  shows "google_translate_page w (google_translate_url text) timeout = Inr element_text
           \<Longrightarrow> google_translate w text timeout = Inr (''Translated text: '' @ element_text)"
    and "google_translate_page w (google_translate_url text) timeout = Inl e
           \<Longrightarrow> google_translate w text timeout
                 = Inr (''An error occurred during translation with google: '' @ str_exn e)"
  using assms by (simp_all add: google_translate_def)

lemma quillbot_result:
  assumes "driver_setup w = None" and "driver_quit w = None"
  shows "quillbot_page w text timeout = Inr element_text
           \<Longrightarrow> quillbot_detect_ai_content w text timeout
                 = Inr (''Text is AI-generated on '' @ element_text)"
    and "quillbot_page w text timeout = Inl e
           \<Longrightarrow> quillbot_detect_ai_content w text timeout
                 = Inr (''An error occurred during AI generation assessment: '' @ str_exn e)"
  using assms by (simp_all add: quillbot_detect_ai_content_def)

lemma gptzero_result:
  assumes "driver_setup w = None"
  shows "gptzero_page w text timeout = Inr element_text
           \<Longrightarrow> gptzero_detect_ai_content w text timeout
                 = Inr (''Text is AI-generated on '' @ element_text)"
    and "gptzero_page w text timeout = Inl e
           \<Longrightarrow> gptzero_detect_ai_content w text timeout
                 = Inr (''An error occurred during AI generation assessment: '' @ str_exn e)"
  using assms by (simp_all add: gptzero_detect_ai_content_def)

lemma unguarded_tools_result:
  "google_search w query = search_run w query"
  "loader_load w urls = Inl e
     \<Longrightarrow> scrape_webpages w (Urls_list urls) = Inl e \<and> scrape_references w urls = Inl e"
  "loader_load w urls = Inr docs
     \<Longrightarrow> scrape_webpages w (Urls_list urls) = Inr (format_documents docs)
         \<and> scrape_references w urls = Inr (format_documents docs)"
  by (simp_all add: google_search_def scrape_webpages_def scrape_references_def)

text \<open>
  Claim C3, amended. The tools that wrap their external call in \<open>try/except\<close> return
  a text for every outcome of the calls inside the \<open>try\<close>: the formatted result when
  they succeed and, when they raise an exception, an error description that is the
  tool's fixed prefix followed by the text of the exception. This holds for
  \<open>deepl_translate\<close> always, for \<open>gptzero_detect_ai_content\<close> when the statements
  before its \<open>try\<close> (installing and starting the driver, \<open>execute_script\<close>,
  \<open>execute_cdp_cmd\<close>) raise nothing, and for \<open>google_translate\<close> and
  \<open>quillbot_detect_ai_content\<close> when moreover \<open>driver.quit()\<close> in the \<open>finally\<close>
  clause raises nothing. \<open>google_search\<close>, \<open>scrape_webpages\<close> (on a list of URLs) and
  \<open>scrape_references\<close> have no handler: they return the search result or the
  formatted documents when the external call succeeds and let its exception through
  when it fails.
\<close>

theorem guarded_tools_return_text:
  "(\<forall>translated. deepl_translate_text w text = Inr translated \<longrightarrow>
        deepl_translate w text = Inr (''Text is AI-generated on '' @ translated))
   \<and> (\<forall>e. deepl_translate_text w text = Inl e \<longrightarrow>
        deepl_translate w text
          = Inr (''An error occurred during translation with deepl: '' @ str_exn e))
   \<and> (driver_setup w = None \<and> driver_quit w = None \<longrightarrow>
        (\<forall>element_text.
            google_translate_page w (google_translate_url text) timeout = Inr element_text \<longrightarrow>
            google_translate w text timeout = Inr (''Translated text: '' @ element_text))
        \<and> (\<forall>e. google_translate_page w (google_translate_url text) timeout = Inl e \<longrightarrow>
              google_translate w text timeout
                = Inr (''An error occurred during translation with google: '' @ str_exn e))
        \<and> (\<forall>element_text. quillbot_page w text timeout = Inr element_text \<longrightarrow>
              quillbot_detect_ai_content w text timeout
                = Inr (''Text is AI-generated on '' @ element_text))
        \<and> (\<forall>e. quillbot_page w text timeout = Inl e \<longrightarrow>
              quillbot_detect_ai_content w text timeout
                = Inr (''An error occurred during AI generation assessment: '' @ str_exn e)))
   \<and> (driver_setup w = None \<longrightarrow>
        (\<forall>element_text. gptzero_page w text timeout = Inr element_text \<longrightarrow>
            gptzero_detect_ai_content w text timeout
              = Inr (''Text is AI-generated on '' @ element_text))
        \<and> (\<forall>e. gptzero_page w text timeout = Inl e \<longrightarrow>
              gptzero_detect_ai_content w text timeout
                = Inr (''An error occurred during AI generation assessment: '' @ str_exn e)))
   \<and> (\<exists>s. deepl_translate w text = Inr s)
   \<and> (driver_setup w = None \<and> driver_quit w = None \<longrightarrow>
        (\<exists>s. google_translate w text timeout = Inr s)
        \<and> (\<exists>s. quillbot_detect_ai_content w text timeout = Inr s))
   \<and> (driver_setup w = None \<longrightarrow> (\<exists>s. gptzero_detect_ai_content w text timeout = Inr s))
   \<and> google_search w query = search_run w query
   \<and> (\<forall>e. loader_load w urls = Inl e \<longrightarrow>
        scrape_webpages w (Urls_list urls) = Inl e \<and> scrape_references w urls = Inl e)
   \<and> (\<forall>docs. loader_load w urls = Inr docs \<longrightarrow>
        scrape_webpages w (Urls_list urls) = Inr (format_documents docs)
        \<and> scrape_references w urls = Inr (format_documents docs))"
  (is "?D1 \<and> ?D2 \<and> ?GQ \<and> ?Z \<and> ?E1 \<and> ?E2 \<and> ?E3 \<and> ?S \<and> ?L1 \<and> ?L2")
proof (intro conjI)
  show ?D1 by (simp add: deepl_translate_result)
  show ?D2 by (simp add: deepl_translate_result)
  show ?GQ by (simp add: google_translate_result quillbot_result)
  show ?Z by (simp add: gptzero_result)
  show ?E1 by (cases "deepl_translate_text w text") (simp_all add: deepl_translate_def)
  show ?E2
    by (cases "google_translate_page w (google_translate_url text) timeout";
        cases "quillbot_page w text timeout")
       (simp_all add: google_translate_def quillbot_detect_ai_content_def)
  show ?E3 by (cases "gptzero_page w text timeout") (simp_all add: gptzero_detect_ai_content_def)
  show ?S by (rule unguarded_tools_result(1))
  show ?L1 by (simp add: unguarded_tools_result)
  show ?L2 by (simp add: unguarded_tools_result)
qed

text \<open>The tools in a world where the browser works but nothing else does.\<close>

theorem guarded_tools_return_text_witness:
  "google_translate pages_down ''hello'' 10
     = Inr ''An error occurred during translation with google: offline''
   \<and> quillbot_detect_ai_content pages_down ''hello'' 10
     = Inr ''An error occurred during AI generation assessment: offline''
   \<and> gptzero_detect_ai_content pages_down ''hello'' 3
     = Inr ''An error occurred during AI generation assessment: offline''
   \<and> deepl_translate pages_down ''hello''
     = Inr ''An error occurred during translation with deepl: offline''
   \<and> scrape_references pages_down [''https://example.org''] = Inl (ExternalError ''offline'')"
proof -
  let ?e = "ExternalError ''offline''"
  have h: "driver_setup pages_down = None \<and> driver_quit pages_down = None"
    and h0: "driver_setup pages_down = None"
    by (simp_all add: pages_down_def offline_def)
  have d: "deepl_translate_text pages_down ''hello'' = Inl ?e"
    and g: "google_translate_page pages_down (google_translate_url ''hello'') 10 = Inl ?e"
    and q: "quillbot_page pages_down ''hello'' 10 = Inl ?e"
    and l: "loader_load pages_down [''https://example.org''] = Inl ?e"
    by (simp_all add: pages_down_def offline_def)
  have z: "gptzero_page pages_down ''hello'' 3 = Inl ?e"
    by (simp add: pages_down_def offline_def)
  note T = guarded_tools_return_text[of pages_down "''hello''" 10 "''q''" "[''https://example.org'']"]
  note U = guarded_tools_return_text[of pages_down "''hello''" 3 "''q''" "[''https://example.org'']"]
  from T d have 1: "deepl_translate pages_down ''hello''
      = Inr (''An error occurred during translation with deepl: '' @ str_exn ?e)" by simp
  from T h g have 2: "google_translate pages_down ''hello'' 10
      = Inr (''An error occurred during translation with google: '' @ str_exn ?e)" by simp
  from T h q have 3: "quillbot_detect_ai_content pages_down ''hello'' 10
      = Inr (''An error occurred during AI generation assessment: '' @ str_exn ?e)" by simp
  from U h0 z have 4: "gptzero_detect_ai_content pages_down ''hello'' 3
      = Inr (''An error occurred during AI generation assessment: '' @ str_exn ?e)" by simp
  from T l have 5: "scrape_references pages_down [''https://example.org''] = Inl ?e" by simp
  from 1 2 3 4 5 show ?thesis by simp
qed

section \<open>Properties of the graphs of the program\<close>

lemmas builder_defs =
  build_def StateGraph_def add_node_def add_edge_def add_conditional_edges_def

lemma research_graph_parts:
  "node_names (research_graph a b c d e)
     = [''WebScraper'', ''Search'', ''ReferencesScraper'', ''Translator'', ''supervisor'']"
  "edges (research_graph a b c d e)
     = [(''WebScraper'', ''supervisor''), (''Search'', ''supervisor''),
        (''ReferencesScraper'', ''supervisor''), (''Translator'', ''supervisor''),
        (START, ''supervisor'')]"
  "branches (research_graph a b c d e)
     = [(''supervisor'', next_router,
         [(''WebScraper'', ''WebScraper''), (''Search'', ''Search''),
          (''ReferencesScraper'', ''ReferencesScraper''), (''Translator'', ''Translator''),
          (''FINISH'', END)])]"
  by (simp_all add: research_graph_def builder_defs node_names_def)

lemma authoring_graph_parts:
  "node_names (authoring_graph a b c) = [''DocWriter'', ''NoteTaker'', ''supervisor'']"
  "edges (authoring_graph a b c)
     = [(''DocWriter'', ''supervisor''), (''NoteTaker'', ''supervisor''), (START, ''supervisor'')]"
  "branches (authoring_graph a b c)
     = [(''supervisor'', next_router,
         [(''DocWriter'', ''DocWriter''), (''NoteTaker'', ''NoteTaker''), (''FINISH'', END)])]"
  by (simp_all add: authoring_graph_def builder_defs node_names_def)

lemma super_graph_parts:
  "node_names (super_graph a b c) = [''ResearchTeam'', ''PaperWritingTeam'', ''supervisor'']"
  "edges (super_graph a b c)
     = [(''ResearchTeam'', ''supervisor''), (''PaperWritingTeam'', ''supervisor''),
        (START, ''supervisor'')]"
  "branches (super_graph a b c)
     = [(''supervisor'', next_router,
         [(''PaperWritingTeam'', ''PaperWritingTeam''), (''ResearchTeam'', ''ResearchTeam''),
          (''FINISH'', END)])]"
  by (simp_all add: super_graph_def builder_defs node_names_def)

lemma star_research: "star_topology (research_graph a b c d e)"
  by (simp add: star_topology_def workers_def outgoing_def routed_from_def
      research_graph_parts START_def)

lemma star_authoring: "star_topology (authoring_graph a b c)"
  by (simp add: star_topology_def workers_def outgoing_def routed_from_def
      authoring_graph_parts START_def)

lemma star_super: "star_topology (super_graph a b c)"
  by (simp add: star_topology_def workers_def outgoing_def routed_from_def
      super_graph_parts START_def)

lemma map_of_filter_fst:
  "map_of xs k = (case filter (\<lambda>e. fst e = k) xs of [] \<Rightarrow> None | e # _ \<Rightarrow> Some (snd e))"
  by (induction xs) auto

lemma outgoing_single: "outgoing g w = [d] \<Longrightarrow> map_of (edges g) w = Some d"
  by (auto simp: outgoing_def map_of_filter_fst[of "edges g" w] split: list.splits)

lemma star_resolve:
  assumes "star_topology g" and "w \<in> set (workers g)"
  shows "resolve g w st = Inr ''supervisor''"
proof -
  from assms have "outgoing g w = [''supervisor'']"
    by (simp add: star_topology_def list_all_iff)
  then have "map_of (edges g) w = Some ''supervisor''" by (rule outgoing_single)
  then show ?thesis by (simp add: resolve_def)
qed

lemma supervisor_not_worker: "''supervisor'' \<notin> set (workers g)"
  by (simp add: workers_def)

lemma hop_Advance:
  assumes "hop cg step_limit cur st counter = Advance nxt st' c'"
  shows "c' = counter + 1" and "c' \<le> step_limit" and "cur \<noteq> END"
    and "resolve (graph_of cg) cur st' = Inr nxt"
  using assms by (auto simp: hop_def split: if_splits option.splits sum.splits)

lemma run_Advance:
  assumes "hop cg step_limit cur st counter = Advance nxt st' c'"
    and "run cg step_limit nxt st' c' = (flt, trace, n)"
  shows "run cg step_limit cur st counter = (flt, (cur, st') # trace, n)"
  using assms by (subst run.simps) simp

lemma run_trace_head:
  assumes "run cg step_limit cur st counter = (flt, trace, n)" and "trace \<noteq> []"
  shows "fst (hd trace) = cur"
  using assms
  by (subst (asm) run.simps) (auto split: hop_result.splits option.splits prod.splits)

lemma run_trace_next:
  "run cg step_limit cur st counter = (flt, trace, n) \<Longrightarrow> Suc i < length trace
   \<Longrightarrow> resolve (graph_of cg) (fst (trace ! i)) (snd (trace ! i)) = Inr (fst (trace ! Suc i))"
proof (induction cg step_limit cur st counter arbitrary: flt trace n i rule: run.induct)
  case (1 cg step_limit cur st counter)
  show ?case
  proof (cases "hop cg step_limit cur st counter")
    case (Stop st')
    with "1.prems" show ?thesis by (subst (asm) run.simps) auto
  next
    case (Fail f snap c')
    with "1.prems" show ?thesis by (subst (asm) run.simps) (auto split: option.splits)
  next
    case (Advance nxt st' c')
    obtain flt' trace' n' where r: "run cg step_limit nxt st' c' = (flt', trace', n')"
      by (cases "run cg step_limit nxt st' c'") auto
    from run_Advance[OF Advance r] "1.prems"(1)
    have tr: "trace = (cur, st') # trace'" by simp
    show ?thesis
    proof (cases i)
      case 0
      with tr "1.prems"(2) have ne: "trace' \<noteq> []" by auto
      from run_trace_head[OF r ne] have "fst (trace' ! 0) = nxt" using ne by (simp add: hd_conv_nth)
      with 0 tr hop_Advance(4)[OF Advance] show ?thesis by simp
    next
      case (Suc j)
      with tr "1.prems"(2) have "Suc j < length trace'" by simp
      from "1.IH"[OF Advance r this] Suc tr show ?thesis by simp
    qed
  qed
qed

text \<open>
  Claim C8. In each of the three graphs of the program every worker (a node other
  than the supervisor) has exactly one outgoing edge, to the supervisor, and no
  conditional edge. Hence the hop after a worker is the supervisor's: edge resolution at
  a worker gives the supervisor for every state, one hop from a worker advances to the
  supervisor, and in every run the snapshot that follows a worker's snapshot belongs to
  the supervisor, which is not a worker.
\<close>

theorem workers_return_to_supervisor:
  "star_topology (research_graph x1 x2 x3 x4 x5)
   \<and> star_topology (authoring_graph y1 y2 y3)
   \<and> star_topology (super_graph z1 z2 z3)
   \<and> ''supervisor'' \<notin> set (workers g)
   \<and> (star_topology g \<and> w \<in> set (workers g) \<longrightarrow> resolve g w st = Inr ''supervisor'')
   \<and> (star_topology (graph_of cg) \<and> w \<in> set (workers (graph_of cg))
        \<and> hop cg step_limit w st counter = Advance nxt st' c' \<longrightarrow> nxt = ''supervisor'')
   \<and> (star_topology (graph_of cg) \<and> run cg step_limit cur st counter = (flt, trace, n)
        \<and> Suc i < length trace \<and> fst (trace ! i) \<in> set (workers (graph_of cg))
        \<longrightarrow> fst (trace ! Suc i) = ''supervisor'')"
proof (intro conjI impI)
  show "star_topology (research_graph x1 x2 x3 x4 x5)" by (rule star_research)
  show "star_topology (authoring_graph y1 y2 y3)" by (rule star_authoring)
  show "star_topology (super_graph z1 z2 z3)" by (rule star_super)
  show "''supervisor'' \<notin> set (workers g)" by (rule supervisor_not_worker)
next
  assume "star_topology g \<and> w \<in> set (workers g)"
  then show "resolve g w st = Inr ''supervisor''" by (simp add: star_resolve)
next
  assume h: "star_topology (graph_of cg) \<and> w \<in> set (workers (graph_of cg))
        \<and> hop cg step_limit w st counter = Advance nxt st' c'"
  then have "hop cg step_limit w st counter = Advance nxt st' c'" by simp
  then have "resolve (graph_of cg) w st' = Inr nxt" by (rule hop_Advance(4))
  moreover from h have "resolve (graph_of cg) w st' = Inr ''supervisor''"
    by (simp add: star_resolve)
  ultimately show "nxt = ''supervisor''" by simp
next
  assume h: "star_topology (graph_of cg) \<and> run cg step_limit cur st counter = (flt, trace, n)
        \<and> Suc i < length trace \<and> fst (trace ! i) \<in> set (workers (graph_of cg))"
  then have "run cg step_limit cur st counter = (flt, trace, n)" "Suc i < length trace"
    by simp_all
  then have "resolve (graph_of cg) (fst (trace ! i)) (snd (trace ! i)) = Inr (fst (trace ! Suc i))"
    by (rule run_trace_next)
  moreover from h have "resolve (graph_of cg) (fst (trace ! i)) (snd (trace ! i)) = Inr ''supervisor''"
    by (simp add: star_resolve)
  ultimately show "fst (trace ! Suc i) = ''supervisor''" by simp
qed

section \<open>Concrete runs of the top-level graph\<close>

lemma super_graph_nodes:
  "nodes (super_graph a b c) = [(''ResearchTeam'', a), (''PaperWritingTeam'', b), (''supervisor'', c)]"
  "state_schema (super_graph a b c) = State"
  by (simp_all add: super_graph_def builder_defs)

lemmas demo_eval =
  run.simps hop_def resolve_def super_graph_nodes super_graph_parts demo_graph_def
  demo_seed_def reply_def looping_supervisor_def scripted_supervisor_def next_router_def
  getitem_def reduce_field_def field_reducer_def State_def START_def END_def HumanMessage_def

lemma demo_loop_run:
  "run \<lparr>graph_of = demo_graph looping_supervisor, entry_node = ''supervisor''\<rparr> 2
       ''supervisor'' demo_seed 0
   = (Some RecursionLimitExceeded,
      [(''supervisor'', [(''messages'', List [Msg (HumanMessage ''x'')]),
                        (''next'', Str ''ResearchTeam'')]),
       (''ResearchTeam'', [(''messages'', List [Msg (HumanMessage ''x''),
                                                Msg (BaseMessage ''human'' ''done'' (Some ''ResearchTeam''))]),
                          (''next'', Str ''ResearchTeam'')]),
       (''supervisor'', [(''messages'', List [Msg (HumanMessage ''x''),
                                              Msg (BaseMessage ''human'' ''done'' (Some ''ResearchTeam''))]),
                        (''next'', Str ''ResearchTeam'')])],
      3)"
  by (simp add: demo_eval)

lemma demo_scripted_run:
  "fst (run \<lparr>graph_of = demo_graph scripted_supervisor, entry_node = ''supervisor''\<rparr> 150
       ''supervisor'' demo_seed 0) = None"
  "map fst (fst (snd (run \<lparr>graph_of = demo_graph scripted_supervisor, entry_node = ''supervisor''\<rparr> 150
       ''supervisor'' demo_seed 0)))
     = [''supervisor'', ''ResearchTeam'', ''supervisor'', ''PaperWritingTeam'', ''supervisor'', END]"
  "snd (snd (run \<lparr>graph_of = demo_graph scripted_supervisor, entry_node = ''supervisor''\<rparr> 150
       ''supervisor'' demo_seed 0)) = 5"
  by (simp_all add: demo_eval)

text \<open>The research team of the top-level graph is followed by the supervisor.\<close>

theorem workers_return_to_supervisor_witness:
  "resolve (demo_graph looping_supervisor) ''ResearchTeam'' demo_seed = Inr ''supervisor''
   \<and> ''ResearchTeam'' \<in> set (workers (demo_graph looping_supervisor))
   \<and> (\<exists>res trace n.
         run \<lparr>graph_of = demo_graph looping_supervisor, entry_node = ''supervisor''\<rparr> 2
           ''supervisor'' demo_seed 0 = (res, trace, n)
         \<and> fst (trace ! 1) = ''ResearchTeam'' \<and> fst (trace ! 2) = ''supervisor'')"
proof -
  let ?g = "demo_graph looping_supervisor"
  let ?cg = "\<lparr>graph_of = ?g, entry_node = ''supervisor''\<rparr>"
  obtain res trace n where r: "run ?cg 2 ''supervisor'' demo_seed 0 = (res, trace, n)"
    by (cases "run ?cg 2 ''supervisor'' demo_seed 0") auto
  have tr: "length trace = 3" "fst (trace ! 1) = ''ResearchTeam''"
    using r by (auto simp: demo_loop_run)
  have w: "''ResearchTeam'' \<in> set (workers ?g)"
    by (simp add: workers_def node_names_def demo_graph_def super_graph_nodes)
  note T = workers_return_to_supervisor[where g = ?g and w = "''ResearchTeam''"
      and st = demo_seed and cg = ?cg and step_limit = 2 and cur = "''supervisor''"
      and counter = 0 and flt = res and trace = trace and n = n and i = 1
      and ?z1.0 = "reply ''ResearchTeam''" and ?z2.0 = "reply ''PaperWritingTeam''"
      and ?z3.0 = looping_supervisor]
  from T have star: "star_topology ?g" by (simp add: demo_graph_def)
  from T have "star_topology ?g \<and> ''ResearchTeam'' \<in> set (workers ?g)
      \<longrightarrow> resolve ?g ''ResearchTeam'' demo_seed = Inr ''supervisor''"
    by (rule conjunct2[THEN conjunct2, THEN conjunct2, THEN conjunct2, THEN conjunct1])
  with star w have 1: "resolve ?g ''ResearchTeam'' demo_seed = Inr ''supervisor''" by simp
  from T have "star_topology (graph_of ?cg) \<and> run ?cg 2 ''supervisor'' demo_seed 0 = (res, trace, n)
        \<and> Suc 1 < length trace \<and> fst (trace ! 1) \<in> set (workers (graph_of ?cg))
        \<longrightarrow> fst (trace ! Suc 1) = ''supervisor''"
    by (rule conjunct2[THEN conjunct2, THEN conjunct2, THEN conjunct2, THEN conjunct2,
          THEN conjunct2])
  with star r tr w have "fst (trace ! Suc 1) = ''supervisor''" by simp
  then have "fst (trace ! 2) = ''supervisor''" by (simp add: numeral_2_eq_2)
  with r tr have "run ?cg 2 ''supervisor'' demo_seed 0 = (res, trace, n)
         \<and> fst (trace ! 1) = ''ResearchTeam'' \<and> fst (trace ! 2) = ''supervisor''" by simp
  then have "\<exists>res trace n. run ?cg 2 ''supervisor'' demo_seed 0 = (res, trace, n)
         \<and> fst (trace ! 1) = ''ResearchTeam'' \<and> fst (trace ! 2) = ''supervisor''"
    by (intro exI)
  with 1 w show ?thesis by (intro conjI)
qed

section \<open>Properties of compilation\<close>

lemma compile_Inr:
  assumes "compile g = Inr cg"
  shows "graph_of cg = g" and "distinct (node_names g)" and "entry_points g = [entry_node cg]"
    and "list_all (known g) (destinations g)"
proof -
  from assms have d: "distinct (node_names g)"
    by (simp add: compile_def split: if_splits)
  from assms d obtain e where e: "entry_points g = [e]"
    by (auto simp: compile_def split: list.splits)
  from assms d e have k: "list_all (known g) (destinations g)"
    by (simp add: compile_def split: if_splits)
  from assms d e k have cg: "cg = \<lparr>graph_of = g, entry_node = e\<rparr>"
    by (simp add: compile_def)
  show "graph_of cg = g" using cg by simp
  show "distinct (node_names g)" by (rule d)
  show "entry_points g = [entry_node cg]" using e cg by simp
  show "list_all (known g) (destinations g)" by (rule k)
qed

lemma compile_ok:
  assumes "distinct (node_names g)" and "entry_points g = [e]"
    and "list_all (known g) (destinations g)"
  shows "compile g = Inr \<lparr>graph_of = g, entry_node = e\<rparr>"
  using assms by (simp add: compile_def)

lemma edge_target_destination:
  assumes "(a, b) \<in> set (edges g)"
  shows "b \<in> set (destinations g)"
proof -
  from assms have "snd (a, b) \<in> snd ` set (edges g)" by (rule imageI)
  then show ?thesis by (simp add: destinations_def)
qed

lemma mapping_value_destination:
  assumes "(src, r, mapping) \<in> set (branches g)" and "(key, dest) \<in> set mapping"
  shows "dest \<in> set (destinations g)"
proof -
  from assms(2) have "snd (key, dest) \<in> snd ` set mapping" by (rule imageI)
  then have "dest \<in> set (map snd mapping)" by simp
  moreover from assms(1)
  have "(\<lambda>(src, r, mapping). map snd mapping) (src, r, mapping)
          \<in> (\<lambda>(src, r, mapping). map snd mapping) ` set (branches g)" by (rule imageI)
  then have "map snd mapping \<in> set (map (\<lambda>(src, r, mapping). map snd mapping) (branches g))"
    by simp
  ultimately have "dest \<in> set (concat (map (\<lambda>(src, r, mapping). map snd mapping) (branches g)))"
    unfolding set_concat by (rule UN_I[rotated])
  then show ?thesis by (simp add: destinations_def)
qed

lemma entry_is_destination:
  assumes "entry_points g = [e]"
  shows "e \<in> set (destinations g)"
proof -
  from assms have "e \<in> set (map snd (filter (\<lambda>x. fst x = START) (edges g)))"
    by (simp add: entry_points_def outgoing_def)
  then have "e \<in> snd ` set (edges g)" by auto
  then show ?thesis by (simp add: destinations_def)
qed

lemma compiled_edges_known:
  assumes "compile g = Inr cg"
  shows "\<forall>(a, b) \<in> set (edges g). known g b"
proof (clarify)
  fix a b assume "(a, b) \<in> set (edges g)"
  then have "b \<in> set (destinations g)" by (rule edge_target_destination)
  with compile_Inr(4)[OF assms] show "known g b" by (simp add: list_all_iff)
qed

lemma compiled_mappings_known:
  assumes "compile g = Inr cg"
  shows "\<forall>(src, r, mapping) \<in> set (branches g). \<forall>(key, dest) \<in> set mapping. known g dest"
proof (clarify)
  fix src r mapping key dest
  assume "(src, r, mapping) \<in> set (branches g)" "(key, dest) \<in> set mapping"
  then have "dest \<in> set (destinations g)" by (rule mapping_value_destination)
  with compile_Inr(4)[OF assms] show "known g dest" by (simp add: list_all_iff)
qed

lemma compile_research:
  "compile (research_graph x1 x2 x3 x4 x5)
     = Inr \<lparr>graph_of = research_graph x1 x2 x3 x4 x5, entry_node = ''supervisor''\<rparr>"
  by (rule compile_ok)
     (simp_all add: research_graph_parts entry_points_def outgoing_def destinations_def
        known_def START_def END_def)

lemma compile_authoring:
  "compile (authoring_graph y1 y2 y3)
     = Inr \<lparr>graph_of = authoring_graph y1 y2 y3, entry_node = ''supervisor''\<rparr>"
  by (rule compile_ok)
     (simp_all add: authoring_graph_parts entry_points_def outgoing_def destinations_def
        known_def START_def END_def)

lemma compile_super:
  "compile (super_graph z1 z2 z3)
     = Inr \<lparr>graph_of = super_graph z1 z2 z3, entry_node = ''supervisor''\<rparr>"
  by (rule compile_ok)
     (simp_all add: super_graph_parts entry_points_def outgoing_def destinations_def
        known_def START_def END_def)

text \<open>
  Claim C2. A graph that compiles has distinct node names and one entry point, and
  every unconditional-edge target and every value of a conditional-edge mapping is a
  registered node or \<open>END\<close>; a graph with a duplicate node name, with no or several
  entry points, or with a destination that is neither registered nor \<open>END\<close> does not
  compile: the result is \<open>CompileError\<close>, and no compiled graph exists to be executed.
  The three graphs of the program compile, with the supervisor as entry node.
\<close>

theorem compile_checks_references:
  "(compile g = Inr cg \<longrightarrow>
      graph_of cg = g \<and> distinct (node_names g) \<and> known g (entry_node cg)
      \<and> (\<forall>(a, b) \<in> set (edges g). known g b)
      \<and> (\<forall>(src, r, mapping) \<in> set (branches g). \<forall>(key, dest) \<in> set mapping. known g dest))
   \<and> (\<not> distinct (node_names g) \<or> length (entry_points g) \<noteq> 1
        \<or> (\<exists>(a, b) \<in> set (edges g). \<not> known g b)
        \<or> (\<exists>(src, r, mapping) \<in> set (branches g). \<exists>(key, dest) \<in> set mapping. \<not> known g dest)
      \<longrightarrow> compile g = Inl CompileError)
   \<and> compile (research_graph x1 x2 x3 x4 x5)
       = Inr \<lparr>graph_of = research_graph x1 x2 x3 x4 x5, entry_node = ''supervisor''\<rparr>
   \<and> compile (authoring_graph y1 y2 y3)
       = Inr \<lparr>graph_of = authoring_graph y1 y2 y3, entry_node = ''supervisor''\<rparr>
   \<and> compile (super_graph z1 z2 z3)
       = Inr \<lparr>graph_of = super_graph z1 z2 z3, entry_node = ''supervisor''\<rparr>"
  (is "?sound \<and> ?complete \<and> ?r \<and> ?a \<and> ?s")
proof (intro conjI)
  show ?r by (rule compile_research)
  show ?a by (rule compile_authoring)
  show ?s by (rule compile_super)
  show ?sound
  proof (intro impI conjI)
    assume c: "compile g = Inr cg"
    note k = compile_Inr(4)[OF c, unfolded list_all_iff]
    show "graph_of cg = g" using c by (rule compile_Inr(1))
    show "distinct (node_names g)" using c by (rule compile_Inr(2))
    show "known g (entry_node cg)"
      using k entry_is_destination[OF compile_Inr(3)[OF c]] by simp
    show "\<forall>(a, b) \<in> set (edges g). known g b"
      using c by (rule compiled_edges_known)
    show "\<forall>(src, r, mapping) \<in> set (branches g). \<forall>(key, dest) \<in> set mapping. known g dest"
      using c by (rule compiled_mappings_known)
  qed
  show ?complete
  proof (intro impI)
    assume v: "\<not> distinct (node_names g) \<or> length (entry_points g) \<noteq> 1
        \<or> (\<exists>(a, b) \<in> set (edges g). \<not> known g b)
        \<or> (\<exists>(src, r, mapping) \<in> set (branches g). \<exists>(key, dest) \<in> set mapping. \<not> known g dest)"
    show "compile g = Inl CompileError"
    proof (cases "compile g")
      case (Inl f)
      then show ?thesis by (auto simp: compile_def split: if_splits list.splits)
    next
      case (Inr cg')
      note k = compile_Inr(4)[OF Inr, unfolded list_all_iff]
      have 1: "distinct (node_names g)" using Inr by (rule compile_Inr(2))
      have 2: "length (entry_points g) = 1" using compile_Inr(3)[OF Inr] by simp
      have 3: "\<not> (\<exists>(a, b) \<in> set (edges g). \<not> known g b)"
        using compiled_edges_known[OF Inr] by blast
      have 4: "\<not> (\<exists>(src, r, mapping) \<in> set (branches g). \<exists>(key, dest) \<in> set mapping. \<not> known g dest)"
        using compiled_mappings_known[OF Inr] by blast
      from v 1 2 3 4 show ?thesis by argo
    qed
  qed
qed

text \<open>An edge to an unregistered node and a second node named supervisor.\<close>

theorem compile_checks_references_witness:
  "compile (add_edge ''ResearchTeam'' ''Editor'' (demo_graph scripted_supervisor))
     = Inl CompileError
   \<and> compile (add_node ''supervisor'' looping_supervisor (demo_graph scripted_supervisor))
     = Inl CompileError
   \<and> known (demo_graph scripted_supervisor) ''supervisor''
   \<and> list_all (\<lambda>(a, b). known (demo_graph scripted_supervisor) b)
        (edges (demo_graph scripted_supervisor))"
proof -
  let ?g = "demo_graph scripted_supervisor"
  let ?cg = "\<lparr>graph_of = ?g, entry_node = ''supervisor''\<rparr>"
  let ?dangling = "add_edge ''ResearchTeam'' ''Editor'' ?g"
  let ?duplicate = "add_node ''supervisor'' looping_supervisor ?g"
  have ok: "compile ?g = Inr ?cg" by (simp add: demo_graph_def compile_super)
  have bad1: "\<exists>(a, b) \<in> set (edges ?dangling). \<not> known ?dangling b"
    by (simp add: add_edge_def demo_graph_def super_graph_parts known_def node_names_def
        super_graph_nodes END_def)
  have bad2: "\<not> distinct (node_names ?duplicate)"
    by (simp add: add_node_def demo_graph_def node_names_def super_graph_nodes)
  note A = compile_checks_references[where g = ?g and cg = ?cg, THEN conjunct1]
  note B = compile_checks_references[where g = ?dangling, THEN conjunct2, THEN conjunct1]
  note C = compile_checks_references[where g = ?duplicate, THEN conjunct2, THEN conjunct1]
  from A ok have "known ?g (entry_node ?cg)" "\<forall>(a, b) \<in> set (edges ?g). known ?g b"
    by simp_all
  moreover from B bad1 have "compile ?dangling = Inl CompileError" by simp
  moreover from C bad2 have "compile ?duplicate = Inl CompileError" by simp
  ultimately show ?thesis by (simp add: list_all_iff)
qed

section \<open>Properties of the executor\<close>

lemma resolve_fault: "resolve g cur st = Inl flt \<Longrightarrow> flt \<noteq> RecursionLimitExceeded"
  by (auto simp: resolve_def split: option.splits sum.splits val.splits prod.splits)

lemma hop_Fail_limit:
  "hop cg step_limit cur st counter = Fail RecursionLimitExceeded snapshot c'
   \<longleftrightarrow> cur \<noteq> END \<and> c' = counter + 1 \<and> step_limit < c'
       \<and> (\<exists>f upd st' nxt. map_of (nodes (graph_of cg)) cur = Some f \<and> f st = Inr upd
              \<and> merge (state_schema (graph_of cg)) st upd = Inr st'
              \<and> resolve (graph_of cg) cur st' = Inr nxt \<and> snapshot = Some st')"
  by (auto simp: hop_def dest: resolve_fault split: option.splits sum.splits)

lemma hop_Fail_other:
  assumes "hop cg step_limit cur st counter = Fail flt snapshot c'"
    and "flt \<noteq> RecursionLimitExceeded"
  shows "c' = counter"
  using assms by (auto simp: hop_def split: if_splits option.splits sum.splits)

lemma run_counter:
  "run cg step_limit cur st counter = (flt, trace, n) \<Longrightarrow> counter \<le> step_limit
   \<Longrightarrow> (flt = Some RecursionLimitExceeded \<longleftrightarrow> step_limit < n)
       \<and> n \<le> step_limit + 1
       \<and> counter \<le> n
       \<and> (flt = None \<longrightarrow> n + 1 = counter + length trace \<and> fst (last trace) = END)
       \<and> (flt = Some RecursionLimitExceeded \<longrightarrow> n = counter + length trace)"
proof (induction cg step_limit cur st counter arbitrary: flt trace n rule: run.induct)
  case (1 cg step_limit cur st counter)
  show ?case
  proof (cases "hop cg step_limit cur st counter")
    case (Stop st')
    then have "cur = END" by (auto simp: hop_def split: if_splits option.splits sum.splits)
    with Stop "1.prems" show ?thesis by (subst (asm) run.simps) auto
  next
    case (Fail f snap c')
    show ?thesis
    proof (cases "f = RecursionLimitExceeded")
      case True
      with Fail have "c' = counter + 1 \<and> step_limit < c' \<and> (\<exists>s. snap = Some s)"
        by (auto simp: hop_Fail_limit)
      with Fail True "1.prems" show ?thesis by (subst (asm) run.simps) auto
    next
      case False
      with Fail have "c' = counter" by (rule hop_Fail_other)
      with Fail False "1.prems" show ?thesis by (subst (asm) run.simps) auto
    qed
  next
    case (Advance nxt st' c')
    obtain flt' trace' n' where r: "run cg step_limit nxt st' c' = (flt', trace', n')"
      by (cases "run cg step_limit nxt st' c'") auto
    from run_Advance[OF Advance r] "1.prems"(1)
    have eq: "flt = flt'" "trace = (cur, st') # trace'" "n = n'" by simp_all
    have c: "c' = counter + 1" "c' \<le> step_limit"
      using hop_Advance(1,2)[OF Advance] by simp_all
    note IH = "1.IH"[OF Advance r c(2)]
    have ne: "flt' = None \<longrightarrow> trace' \<noteq> []"
      using IH c by auto
    from IH eq c ne show ?thesis by auto
  qed
qed

lemma hop_limit_mono:
  assumes "hop cg step_limit cur st counter = h" and "step_limit \<le> limit'"
    and "\<forall>snap c'. h \<noteq> Fail RecursionLimitExceeded snap c'"
  shows "hop cg limit' cur st counter = h"
  using assms by (auto simp: hop_def split: if_splits option.splits sum.splits)

lemma run_limit_mono:
  "run cg step_limit cur st counter = (flt, trace, n) \<Longrightarrow> flt \<noteq> Some RecursionLimitExceeded
   \<Longrightarrow> step_limit \<le> limit' \<Longrightarrow> run cg limit' cur st counter = (flt, trace, n)"
proof (induction cg step_limit cur st counter arbitrary: flt trace n rule: run.induct)
  case (1 cg step_limit cur st counter)
  show ?case
  proof (cases "hop cg step_limit cur st counter")
    case (Stop st')
    then have "hop cg limit' cur st counter = Stop st'"
      using "1.prems"(3) by (rule hop_limit_mono) simp
    with Stop "1.prems"(1) show ?thesis
      by (subst run.simps, subst (asm) run.simps) simp
  next
    case (Fail f snap c')
    with "1.prems"(1) have "flt = Some f" by (subst (asm) run.simps) auto
    with "1.prems"(2) have nl: "f \<noteq> RecursionLimitExceeded" by simp
    from Fail "1.prems"(3) have "hop cg limit' cur st counter = Fail f snap c'"
      by (rule hop_limit_mono) (simp add: nl)
    with Fail "1.prems"(1) show ?thesis
      by (subst run.simps, subst (asm) run.simps) simp
  next
    case (Advance nxt st' c')
    obtain flt' trace' n' where r: "run cg step_limit nxt st' c' = (flt', trace', n')"
      by (cases "run cg step_limit nxt st' c'") auto
    from run_Advance[OF Advance r] "1.prems"(1)
    have eq: "flt = flt'" "trace = (cur, st') # trace'" "n = n'" by simp_all
    from Advance "1.prems"(3) have h': "hop cg limit' cur st counter = Advance nxt st' c'"
      by (rule hop_limit_mono) simp
    have "run cg limit' nxt st' c' = (flt', trace', n')"
      using "1.IH"[OF Advance r] "1.prems"(2,3) eq by simp
    from run_Advance[OF h' this] eq show ?thesis by simp
  qed
qed

lemma stream_super_graph_run:
  "stream_super_graph z1 z2 z3 seed counter
     = run \<lparr>graph_of = super_graph z1 z2 z3, entry_node = ''supervisor''\<rparr>
         recursion_limit ''supervisor'' seed counter"
  by (simp add: stream_super_graph_def compile_super execute_def)

text \<open>
  Claim C1. A hop that advances increments the step counter by exactly one, and a
  hop that stops at the terminal sentinel or fails for another reason leaves it as it
  is. A hop fails with \<open>RecursionLimitExceeded\<close> exactly when its node has run, the next
  node has been resolved and the incremented counter exceeds the step limit. For a run
  that starts with the counter within the limit: it ends with
  \<open>RecursionLimitExceeded\<close> if and only if the final counter exceeds the limit, and
  then the counter is the limit plus one and has counted every emitted snapshot; a run
  that reaches the terminal sentinel has counted every hop but the terminal one and
  stays within the limit. Raising the limit does not change a run that did not exceed
  it. The top-level run uses the limit 150.
\<close>

theorem step_counter_and_limit:
  "(hop cg step_limit cur st counter = Advance nxt st' c' \<longrightarrow> c' = counter + 1 \<and> c' \<le> step_limit)
   \<and> (hop cg step_limit cur st counter = Fail flt snap c' \<longrightarrow>
        (if flt = RecursionLimitExceeded then c' = counter + 1 \<and> step_limit < c' else c' = counter))
   \<and> ((\<exists>snap c'. hop cg step_limit cur st counter = Fail RecursionLimitExceeded snap c')
        \<longleftrightarrow> cur \<noteq> END \<and> step_limit < counter + 1
            \<and> (\<exists>f upd st' nxt. map_of (nodes (graph_of cg)) cur = Some f \<and> f st = Inr upd
                  \<and> merge (state_schema (graph_of cg)) st upd = Inr st'
                  \<and> resolve (graph_of cg) cur st' = Inr nxt))
   \<and> (counter \<le> step_limit \<and> run cg step_limit cur st counter = (res, trace, n) \<longrightarrow>
        (res = Some RecursionLimitExceeded \<longleftrightarrow> step_limit < n)
        \<and> n \<le> step_limit + 1
        \<and> (res = Some RecursionLimitExceeded \<longrightarrow> n = counter + length trace)
        \<and> (res = None \<longrightarrow> n + 1 = counter + length trace \<and> fst (last trace) = END))
   \<and> (run cg step_limit cur st counter = (res, trace, n) \<and> res \<noteq> Some RecursionLimitExceeded
        \<and> step_limit \<le> limit' \<longrightarrow> run cg limit' cur st counter = (res, trace, n))
   \<and> recursion_limit = 150
   \<and> (counter \<le> 150 \<and> stream_super_graph z1 z2 z3 seed counter = (res', trace', n') \<longrightarrow>
        (res' = Some RecursionLimitExceeded \<longleftrightarrow> 150 < n'))"
  (is "?A \<and> ?B \<and> ?C \<and> ?D \<and> ?E \<and> ?F \<and> ?G")
proof (intro conjI)
  show ?A
  proof (intro impI)
    assume "hop cg step_limit cur st counter = Advance nxt st' c'"
    then show "c' = counter + 1 \<and> c' \<le> step_limit"
      using hop_Advance(1,2) by simp
  qed
  show ?B
  proof (intro impI)
    assume h: "hop cg step_limit cur st counter = Fail flt snap c'"
    show "if flt = RecursionLimitExceeded then c' = counter + 1 \<and> step_limit < c' else c' = counter"
    proof (cases "flt = RecursionLimitExceeded")
      case True
      with h show ?thesis by (simp add: hop_Fail_limit)
    next
      case False
      with h hop_Fail_other show ?thesis by simp
    qed
  qed
  show ?C by (auto simp: hop_Fail_limit)
  show ?D
  proof (intro impI)
    assume "counter \<le> step_limit \<and> run cg step_limit cur st counter = (res, trace, n)"
    then have "run cg step_limit cur st counter = (res, trace, n)" "counter \<le> step_limit"
      by simp_all
    from run_counter[OF this] show
      "(res = Some RecursionLimitExceeded \<longleftrightarrow> step_limit < n)
        \<and> n \<le> step_limit + 1
        \<and> (res = Some RecursionLimitExceeded \<longrightarrow> n = counter + length trace)
        \<and> (res = None \<longrightarrow> n + 1 = counter + length trace \<and> fst (last trace) = END)"
      by simp
  qed
  show ?E
  proof (intro impI)
    assume "run cg step_limit cur st counter = (res, trace, n) \<and> res \<noteq> Some RecursionLimitExceeded
        \<and> step_limit \<le> limit'"
    then have "run cg step_limit cur st counter = (res, trace, n)"
      "res \<noteq> Some RecursionLimitExceeded" "step_limit \<le> limit'" by simp_all
    then show "run cg limit' cur st counter = (res, trace, n)" by (rule run_limit_mono)
  qed
  show ?F by (simp add: recursion_limit_def)
  show ?G
  proof (intro impI)
    assume "counter \<le> 150 \<and> stream_super_graph z1 z2 z3 seed counter = (res', trace', n')"
    then have "run \<lparr>graph_of = super_graph z1 z2 z3, entry_node = ''supervisor''\<rparr>
         recursion_limit ''supervisor'' seed counter = (res', trace', n')"
      "counter \<le> recursion_limit"
      by (simp_all add: stream_super_graph_run recursion_limit_def)
    from run_counter[OF this] show "res' = Some RecursionLimitExceeded \<longleftrightarrow> 150 < n'"
      by (simp add: recursion_limit_def)
  qed
qed

text \<open>
  A supervisor that never finishes, with the limit 2 and the counter starting at 0, and
  a supervisor that finishes after both teams, with the limits 150 and 200.
\<close>

theorem step_counter_and_limit_witness:
  "fst (run \<lparr>graph_of = demo_graph looping_supervisor, entry_node = ''supervisor''\<rparr> 2
          ''supervisor'' demo_seed 0) = Some RecursionLimitExceeded
   \<and> snd (snd (run \<lparr>graph_of = demo_graph looping_supervisor, entry_node = ''supervisor''\<rparr> 2
          ''supervisor'' demo_seed 0)) = 3
   \<and> (\<exists>trace. run \<lparr>graph_of = demo_graph scripted_supervisor, entry_node = ''supervisor''\<rparr> 150
          ''supervisor'' demo_seed 0 = (None, trace, 5) \<and> length trace = 6)
   \<and> (\<exists>trace. run \<lparr>graph_of = demo_graph scripted_supervisor, entry_node = ''supervisor''\<rparr> 200
          ''supervisor'' demo_seed 0 = (None, trace, 5))"
proof -
  let ?loop = "\<lparr>graph_of = demo_graph looping_supervisor, entry_node = ''supervisor''\<rparr>"
  let ?scr = "\<lparr>graph_of = demo_graph scripted_supervisor, entry_node = ''supervisor''\<rparr>"
  obtain res trace n where r: "run ?loop 2 ''supervisor'' demo_seed 0 = (res, trace, n)"
    by (cases "run ?loop 2 ''supervisor'' demo_seed 0") auto
  have n: "n = 3" using r by (simp add: demo_loop_run)
  have c: "(0::nat) \<le> 2" by simp
  note T = step_counter_and_limit[where cg = ?loop and step_limit = 2 and cur = "''supervisor''"
      and st = demo_seed and counter = 0 and res = res and trace = trace and n = n]
  from T have "0 \<le> (2::nat) \<and> run ?loop 2 ''supervisor'' demo_seed 0 = (res, trace, n) \<longrightarrow>
        (res = Some RecursionLimitExceeded \<longleftrightarrow> 2 < n)
        \<and> n \<le> 2 + 1
        \<and> (res = Some RecursionLimitExceeded \<longrightarrow> n = 0 + length trace)
        \<and> (res = None \<longrightarrow> n + 1 = 0 + length trace \<and> fst (last trace) = END)"
    by (rule conjunct2[THEN conjunct2, THEN conjunct2, THEN conjunct1])
  with r c n have "res = Some RecursionLimitExceeded" by simp
  with r n have 1: "fst (run ?loop 2 ''supervisor'' demo_seed 0) = Some RecursionLimitExceeded"
    "snd (snd (run ?loop 2 ''supervisor'' demo_seed 0)) = 3" by simp_all
  obtain res2 tr n2 where s0: "run ?scr 150 ''supervisor'' demo_seed 0 = (res2, tr, n2)"
    by (cases "run ?scr 150 ''supervisor'' demo_seed 0") auto
  with demo_scripted_run have "res2 = None" "n2 = 5"
    and m: "map fst tr = [''supervisor'', ''ResearchTeam'', ''supervisor'', ''PaperWritingTeam'',
                         ''supervisor'', END]" by simp_all
  with s0 have s: "run ?scr 150 ''supervisor'' demo_seed 0 = (None, tr, 5)" by simp
  from m have "length (map fst tr) = 6" by simp
  then have l: "length tr = 6" by simp
  note U = step_counter_and_limit[where cg = ?scr and step_limit = 150 and cur = "''supervisor''"
      and st = demo_seed and counter = 0 and res = None and trace = tr and n = 5
      and limit' = 200]
  from U have "run ?scr 150 ''supervisor'' demo_seed 0 = (None, tr, 5)
        \<and> None \<noteq> Some RecursionLimitExceeded \<and> (150::nat) \<le> 200
        \<longrightarrow> run ?scr 200 ''supervisor'' demo_seed 0 = (None, tr, 5)"
    by (rule conjunct2[THEN conjunct2, THEN conjunct2, THEN conjunct2, THEN conjunct1])
  with s have 2: "run ?scr 200 ''supervisor'' demo_seed 0 = (None, tr, 5)" by simp
  from s l have 3: "\<exists>trace. run ?scr 150 ''supervisor'' demo_seed 0 = (None, trace, 5)
      \<and> length trace = 6" by (intro exI[of _ tr]) simp
  from 2 have 4: "\<exists>trace. run ?scr 200 ''supervisor'' demo_seed 0 = (None, trace, 5)"
    by (rule exI)
  from 1 3 4 show ?thesis by (intro conjI)
qed

end
